theory Spec2Isabelle
  imports
    Main
    "HOL-Library.Char_ord"
    "HOL-Library.List_Lexorder"
    "HOL-Library.Sublist"
    "HOL-Library.Multiset"
begin

section \<open>Exceptions\<close>

text \<open>
  The scripts signal failure by raising. \<open>ValueError\<close> is what the client constructors
  raise on a missing environment variable, \<open>RuntimeError\<close> is the class the annotation
  loops catch, \<open>KeyError\<close> is what the data frame raises for a column label it does not
  have, \<open>EmptyDataError\<close> is the CSV reader's for a file without a header, and
  \<open>OtherError\<close> stands for every other exception class. Each carries its message.
\<close>

datatype exn =
    KeyError string
  | ValueError string
  | RuntimeError string
  | EmptyDataError string
  | OtherError string

section \<open>Data frames\<close>

text \<open>
  A data frame is its ordered column labels and its rows in index order. A row maps a
  column label to the text of its cell; the missing value (NaN) is \<open>None\<close>. Texts are
  Python strings, here in their UTF-8 encoding: equality, suffixes and the lexicographic
  order of the encodings are those of the code point sequences.
\<close>

type_synonym row = "string \<rightharpoonup> string"

record dataframe =
  columns :: "string list"
  rows :: "row list"

text \<open>\<^verbatim>\<open>pd.DataFrame(columns=columns).astype(str)\<close>: the labels and no row.\<close>

definition DataFrame :: "string list \<Rightarrow> dataframe" where
  "DataFrame cols = \<lparr>columns = cols, rows = []\<rparr>"

text \<open>\<^verbatim>\<open>df[c]\<close>: the cells of column \<open>c\<close>, or \<open>KeyError\<close>.\<close>

definition getitem :: "dataframe \<Rightarrow> string \<Rightarrow> exn + string option list" where
  "getitem d c =
     (if c \<in> set (columns d) then Inr (map (\<lambda>r. r c) (rows d)) else Inl (KeyError c))"

text \<open>
  \<^verbatim>\<open>pd.concat([a, b], ignore_index=True)\<close>: the rows of \<open>a\<close> then those of \<open>b\<close>, over
  the labels of \<open>a\<close> followed by the labels only \<open>b\<close> has; a cell a row has no label for
  is NaN.
\<close>

definition pd_concat :: "dataframe \<Rightarrow> dataframe \<Rightarrow> dataframe" where
  "pd_concat a b =
     \<lparr>columns = columns a @ filter (\<lambda>c. c \<notin> set (columns a)) (columns b),
      rows = rows a @ rows b\<rparr>"

text \<open>
  The identifier column and the eight slot columns:
  \<^verbatim>\<open>columns = [ f"c{i}_description" for i in range(1, 9) ]; columns.insert(0, "id_video")\<close>.
\<close>

fun str_nat :: "nat \<Rightarrow> string" where
  "str_nat n =
     (if n < 10 then [char_of (48 + n)]
      else str_nat (n div 10) @ [char_of (48 + n mod 10)])"

definition schema_columns :: "string \<Rightarrow> string list" where
  "schema_columns kind =
     ''id_video'' # map (\<lambda>i. ''c'' @ str_nat i @ ''_'' @ kind) [1..<9]"

subsection \<open>The table operations of the annotation loop\<close>

text \<open>
  The identifier the loops look up is a Python value: the string cut from the folder path
  in the image and JSON scripts, a cell of the annotation file in the command script. It
  is a \<open>string option\<close> like a cell, and \<open>py_eq\<close> is the element-wise \<^verbatim>\<open>==\<close>, under
  which NaN equals nothing.
\<close>

definition py_eq :: "string option \<Rightarrow> string option \<Rightarrow> bool" where
  "py_eq a b = (a \<noteq> None \<and> a = b)"

text \<open>
  \<open>ensure_row\<close> is lines 213-217 of the image script (178-183 of the command script):
  \<^verbatim>\<open>
  if id_video not in df["id_video"].values:
      df = pd.concat([df, pd.DataFrame({ "id_video": [id_video] })], ignore_index=True)
  \<close>
\<close>

definition id_frame :: "string option \<Rightarrow> dataframe" where
  "id_frame key =
     \<lparr>columns = [''id_video''], rows = [(\<lambda>c. if c = ''id_video'' then key else None)]\<rparr>"

definition ensure_row :: "dataframe \<Rightarrow> string option \<Rightarrow> exn + dataframe" where
  "ensure_row d key =
     (case getitem d ''id_video'' of
        Inl e \<Rightarrow> Inl e
      | Inr vals \<Rightarrow>
          if \<not> list_ex (\<lambda>x. py_eq x key) vals
          then Inr (pd_concat d (id_frame key))
          else Inr d)"

text \<open>
  \<open>is_absent\<close> is the guard \<^verbatim>\<open>df.loc[df["id_video"] == id_video, COL].isna().all()\<close>:
  the mask needs the identifier column, the selection needs the column \<open>col\<close>, and the
  test holds when every selected cell is NaN (so also when no row is selected).
\<close>

definition loc :: "dataframe \<Rightarrow> string option \<Rightarrow> string \<Rightarrow> exn + string option list" where
  "loc d key col =
     (case getitem d ''id_video'' of
        Inl e \<Rightarrow> Inl e
      | Inr vals \<Rightarrow>
          if col \<in> set (columns d)
          then Inr (map (\<lambda>r. r col) (filter (\<lambda>r. py_eq (r ''id_video'') key) (rows d)))
          else Inl (KeyError col))"

definition is_absent :: "dataframe \<Rightarrow> string option \<Rightarrow> string \<Rightarrow> exn + bool" where
  "is_absent d key col =
     (case loc d key col of
        Inl e \<Rightarrow> Inl e
      | Inr cells \<Rightarrow> Inr (list_all (\<lambda>c. c = None) cells))"

text \<open>
  \<open>set_cell\<close> is the assignment \<^verbatim>\<open>df.loc[df["id_video"] == id_video, COL] = result\<close>:
  the mask needs the identifier column, and every row the mask selects gets the value;
  an all-false mask selects nothing and the assignment is no error. A label the frame
  does not have yet is added as a new last column, except on a frame without rows, where
  the assignment of a string raises \<open>ValueError\<close>.
\<close>

definition set_cell ::
  "dataframe \<Rightarrow> string option \<Rightarrow> string \<Rightarrow> string \<Rightarrow> exn + dataframe" where
  "set_cell d key col v =
     (case getitem d ''id_video'' of
        Inl e \<Rightarrow> Inl e
      | Inr vals \<Rightarrow>
          if col \<notin> set (columns d) \<and> List.null (rows d)
          then Inl (ValueError ''cannot set a frame with no defined index and a scalar'')
          else
            Inr \<lparr>columns = (if col \<in> set (columns d) then columns d else columns d @ [col]),
                 rows = map (\<lambda>r. if py_eq (r ''id_video'') key then r(col \<mapsto> v) else r)
                          (rows d)\<rparr>)"

text \<open>The identifier cells of a frame, in row order.\<close>

definition ids :: "dataframe \<Rightarrow> string option list" where
  "ids d = map (\<lambda>r. r ''id_video'') (rows d)"

text \<open>
  \<open>sort_by_key\<close> is \<^verbatim>\<open>df.sort_values(by="id_video").reset_index(drop=True)\<close>: the rows
  ascending by identifier with the NaN identifiers last. The default sort of pandas
  (quicksort) need not keep the order of rows with equal identifiers; the definition
  keeps it, which is one of the orders the sort can give, and no statement below depends
  on the order of such rows.
\<close>

definition sort_by_key :: "dataframe \<Rightarrow> exn + dataframe" where
  "sort_by_key d =
     (case getitem d ''id_video'' of
        Inl e \<Rightarrow> Inl e
      | Inr vals \<Rightarrow>
          Inr (d\<lparr>rows :=
                 sort_key (\<lambda>r. case r ''id_video'' of Some k \<Rightarrow> k | None \<Rightarrow> [])
                   (filter (\<lambda>r. r ''id_video'' \<noteq> None) (rows d))
                 @ filter (\<lambda>r. r ''id_video'' = None) (rows d)\<rparr>))"

section \<open>CSV files\<close>

text \<open>
  A CSV file is its header and its records, each a list of field texts. The quoting of
  the file format carries every field text unchanged between writer and reader, so the
  file is kept as the fields.
\<close>

record csv =
  header :: "string list"
  records :: "string list list"

text \<open>\<^verbatim>\<open>df.to_csv(file_path, index=False)\<close>: one record per row, NaN as the empty field.\<close>

definition to_csv :: "dataframe \<Rightarrow> csv" where
  "to_csv d =
     \<lparr>header = columns d,
      records = map (\<lambda>r. map (\<lambda>c. case r c of None \<Rightarrow> [] | Some v \<Rightarrow> v) (columns d)) (rows d)\<rparr>"

text \<open>The field texts \<^verbatim>\<open>pd.read_csv\<close> reads as NaN by default.\<close>

definition na_values :: "string list" where
  "na_values =
     [[], ''#N/A'', ''#N/A N/A'', ''#NA'', ''-1.#IND'', ''-1.#QNAN'', ''-NaN'', ''-nan'',
      ''1.#IND'', ''1.#QNAN'', ''<NA>'', ''N/A'', ''NA'', ''NULL'', ''NaN'', ''None'',
      ''n/a'', ''nan'', ''null'']"

definition parse_field :: "string \<Rightarrow> string option" where
  "parse_field f = (if f \<in> set na_values then None else Some f)"

text \<open>
  The outcome of reading a file. The frames of this development hold text and NaN only,
  over distinct non-empty labels; \<open>Unmodelled\<close> marks the files the reader turns into
  something else: a column it gives a numeric or boolean dtype (all its present fields
  parse as such, which the parameter \<open>typed\<close> decides from those fields), a header label
  it renames (a duplicate or an empty one), a record longer than the header. A record
  shorter than the header is padded with NaN.
\<close>

datatype loaded = Frame dataframe | Raises exn | Unmodelled

definition read_row :: "string list \<Rightarrow> string list \<Rightarrow> row" where
  "read_row labels flds =
     (\<lambda>c. case map_of (zip labels flds) c of None \<Rightarrow> None | Some f \<Rightarrow> parse_field f)"

definition present_fields :: "dataframe \<Rightarrow> string \<Rightarrow> string list" where
  "present_fields d c = concat (map (\<lambda>r. case r c of None \<Rightarrow> [] | Some v \<Rightarrow> [v]) (rows d))"

definition retyped :: "(string list \<Rightarrow> bool) \<Rightarrow> dataframe \<Rightarrow> bool" where
  "retyped typed d =
     list_ex (\<lambda>c. present_fields d c \<noteq> [] \<and> typed (present_fields d c)) (columns d)"

definition read_csv :: "(string list \<Rightarrow> bool) \<Rightarrow> csv \<Rightarrow> loaded" where
  "read_csv typed f =
     (if header f = [] then Raises (EmptyDataError ''No columns to parse from file'')
      else if \<not> distinct (header f) \<or> [] \<in> set (header f)
              \<or> list_ex (\<lambda>flds. length (header f) < length flds) (records f)
      then Unmodelled
      else let d = \<lparr>columns = header f, rows = map (read_row (header f)) (records f)\<rparr>
           in if retyped typed d then Unmodelled else Frame d)"

text \<open>
  \<open>load\<close> is lines 180-184 of the image script:
  \<^verbatim>\<open>
  if os.path.exists(file_path):
      df = pd.read_csv(file_path)
  else:
      df = pd.DataFrame(columns=columns).astype(str)
  \<close>
  over a file system that maps a path to the file there. \<open>save\<close> is the \<^verbatim>\<open>to_csv\<close> call.
\<close>

type_synonym filesystem = "string \<rightharpoonup> csv"

definition load ::
  "(string list \<Rightarrow> bool) \<Rightarrow> filesystem \<Rightarrow> string \<Rightarrow> string list \<Rightarrow> loaded" where
  "load typed files file_path cols =
     (case files file_path of
        Some f \<Rightarrow> read_csv typed f
      | None \<Rightarrow> Frame (DataFrame cols))"

definition save :: "dataframe \<Rightarrow> string \<Rightarrow> filesystem \<Rightarrow> filesystem" where
  "save d file_path files = files(file_path \<mapsto> to_csv d)"

text \<open>
  What a frame reads back as after it has been written: the same labels and, in every
  row, the cells of these labels with the NaN texts turned into NaN.
\<close>

definition reread :: "dataframe \<Rightarrow> dataframe" where
  "reread t =
     \<lparr>columns = columns t,
      rows = map (\<lambda>r c. if c \<in> set (columns t)
                         then (case r c of None \<Rightarrow> None | Some v \<Rightarrow> parse_field v)
                         else None) (rows t)\<rparr>"

section \<open>The sampler\<close>

text \<open>
  Lines 228-239 of the image script:
  \<^verbatim>\<open>
  if len(filenames) > 50:
      SAMPLE_SIZE = 50
      file_count = len(filenames)
      indices = []
      for i in range(SAMPLE_SIZE):
          indices.append(int((file_count - 1) * i / (SAMPLE_SIZE - 1)))
      filenames = [ filenames[i] for i in indices ]
      filenames.sort()
  \<close>
  The quotient is a float division of two integers followed by truncation; the division
  is correctly rounded, so for every list that fits in memory the truncation is the
  integer quotient. Every index is at most \<open>file_count - 1\<close>, so no read is out of range.
\<close>

definition SAMPLE_SIZE :: nat where
  "SAMPLE_SIZE = 50"

definition sample_indices :: "nat \<Rightarrow> nat list" where
  "sample_indices file_count =
     map (\<lambda>i. ((file_count - 1) * i) div (SAMPLE_SIZE - 1)) [0..<SAMPLE_SIZE]"

definition sample :: "string list \<Rightarrow> string list" where
  "sample filenames =
     (if length filenames > 50
      then sort (map (\<lambda>i. filenames ! i) (sample_indices (length filenames)))
      else filenames)"

section \<open>The annotation source\<close>

text \<open>
  \<open>get_azure_openai_client\<close> reads the two environment variables and raises
  \<open>ValueError\<close> for the first that is missing.
\<close>

type_synonym environ = "string \<rightharpoonup> string"

record client =
  api_key :: string
  api_version :: string
  azure_endpoint :: string

definition get_azure_openai_client :: "environ \<Rightarrow> exn + client" where
  "get_azure_openai_client env =
     (case env ''AZURE_OPENAI_API_KEY'' of
        None \<Rightarrow> Inl (ValueError
          ''API key for Microsoft Azure OpenAI not found in environment variables.'')
      | Some k \<Rightarrow>
          (case env ''AZURE_OPENAI_ENDPOINT'' of
             None \<Rightarrow> Inl (ValueError
               ''Azure endpoint for OpenAI not found in environment variables.'')
           | Some e \<Rightarrow> Inr \<lparr>api_key = k, api_version = ''2024-02-01'', azure_endpoint = e\<rparr>))"

text \<open>
  The remote model is outside the program: \<open>gpt n c x\<close> is what the \<open>n\<close>-th request of a
  run, sent through client \<open>c\<close> with input \<open>x\<close>, comes back with: the text of the answer,
  or the exception the request (or the image encoding before it) raises.
  \<open>describe_hand_gesture\<close> builds the client first and then sends the request.
\<close>

type_synonym 'i service = "nat \<Rightarrow> client \<Rightarrow> 'i \<Rightarrow> exn + string"

definition describe_hand_gesture ::
  "environ \<Rightarrow> 'i service \<Rightarrow> nat \<Rightarrow> 'i \<Rightarrow> exn + string" where
  "describe_hand_gesture env gpt n image_paths =
     (case get_azure_openai_client env of
        Inl e \<Rightarrow> Inl e
      | Inr c \<Rightarrow> gpt n c image_paths)"

section \<open>The annotation loop\<close>

text \<open>
  A folder of the corpus that holds files: \<open>id_video\<close> and \<open>id_description\<close> are the last
  two components of its path, \<open>filenames\<close> its sorted matching files. The state of a run
  is the frame, the file system, the lines printed and the number of calls of
  \<open>describe_hand_gesture\<close> made so far.
\<close>

record folder =
  id_video :: string
  id_description :: string
  filenames :: "string list"

record state =
  df :: dataframe
  fs :: filesystem
  out :: "string list"
  calls :: nat

text \<open>
  The body of the loop over the folders, lines 200-254 of the image script and 191-232 of
  the JSON script, which differ in how the file names become the request: \<open>prepare\<close> is
  \<open>sample\<close> in the first and the identity in the second. The result is the exception
  that leaves the loop, if any, and the state reached. \<^verbatim>\<open>except RuntimeError\<close> prints
  and goes on to the next folder; every other exception propagates.
\<close>

definition process_folder ::
  "(string list \<Rightarrow> 'i) \<Rightarrow> string \<Rightarrow> environ \<Rightarrow> 'i service \<Rightarrow> folder \<Rightarrow> state
     \<Rightarrow> exn option \<times> state" where
  "process_folder prepare file_path env gpt fo s =
     (if filenames fo = [] then (None, s)
      else
        (case ensure_row (df s) (Some (id_video fo)) of
           Inl e \<Rightarrow> (Some e, s)
         | Inr d1 \<Rightarrow>
             (let DESCRIPTION_COL = id_description fo @ ''_description'';
                  s1 = s\<lparr>df := d1,
                         out := out s @ [''Processing '' @ id_video fo @ '' / description ''
                                          @ id_description fo @ ''...'']\<rparr>;
                  s2 = s1\<lparr>calls := Suc (calls s1)\<rparr>
              in (case is_absent d1 (Some (id_video fo)) DESCRIPTION_COL of
                    Inl e \<Rightarrow> (Some e, s1)
                  | Inr False \<Rightarrow> (None, s1)
                  | Inr True \<Rightarrow>
                      (case describe_hand_gesture env gpt (calls s1) (prepare (filenames fo)) of
                         Inl (RuntimeError m) \<Rightarrow>
                           (None, s2\<lparr>out := out s2 @ [''Exception Error: '' @ m @ ''.'']\<rparr>)
                       | Inl e \<Rightarrow> (Some e, s2)
                       | Inr result \<Rightarrow>
                           (case set_cell d1 (Some (id_video fo)) DESCRIPTION_COL result of
                              Inl e \<Rightarrow> (Some e, s2)
                            | Inr d2 \<Rightarrow>
                                (None, s2\<lparr>df := d2, fs := save d2 file_path (fs s2)\<rparr>)))))))"

fun run_folders ::
  "(string list \<Rightarrow> 'i) \<Rightarrow> string \<Rightarrow> environ \<Rightarrow> 'i service \<Rightarrow> folder list \<Rightarrow> state
     \<Rightarrow> exn option \<times> state" where
  "run_folders prepare file_path env gpt [] s = (None, s)"
| "run_folders prepare file_path env gpt (fo # fos) s =
     (case process_folder prepare file_path env gpt fo s of
        (Some e, s') \<Rightarrow> (Some e, s')
      | (None, s') \<Rightarrow> run_folders prepare file_path env gpt fos s')"

text \<open>After the loop, lines 256-260: sort by identifier and save.\<close>

definition finish :: "string \<Rightarrow> state \<Rightarrow> exn option \<times> state" where
  "finish file_path s =
     (case sort_by_key (df s) of
        Inl e \<Rightarrow> (Some e, s)
      | Inr d \<Rightarrow> (None, s\<lparr>df := d, fs := save d file_path (fs s)\<rparr>))"

definition annotate ::
  "(string list \<Rightarrow> 'i) \<Rightarrow> string \<Rightarrow> environ \<Rightarrow> 'i service \<Rightarrow> folder list \<Rightarrow> state
     \<Rightarrow> exn option \<times> state" where
  "annotate prepare file_path env gpt fos s =
     (case run_folders prepare file_path env gpt fos s of
        (Some e, s') \<Rightarrow> (Some e, s')
      | (None, s') \<Rightarrow> finish file_path s')"

text \<open>
  The whole script: load the table or create it, then annotate. \<open>Ran r s\<close> is a run that
  got past the load and ended in state \<open>s\<close>, normally (\<open>r = None\<close>) or by an exception.
\<close>

datatype run =
    LoadRaised exn
  | LoadUnmodelled
  | is_Ran: Ran (raised: "exn option") (final: state)

definition main ::
  "(string list \<Rightarrow> bool) \<Rightarrow> (string list \<Rightarrow> 'i) \<Rightarrow> string \<Rightarrow> environ \<Rightarrow> 'i service
     \<Rightarrow> filesystem \<Rightarrow> folder list \<Rightarrow> run" where
  "main typed prepare file_path env gpt files fos =
     (case load typed files file_path (schema_columns ''description'') of
        Raises e \<Rightarrow> LoadRaised e
      | Unmodelled \<Rightarrow> LoadUnmodelled
      | Frame d \<Rightarrow>
          (case annotate prepare file_path env gpt fos
                  \<lparr>df = d, fs = files, out = [], calls = 0\<rparr> of
             (r, s) \<Rightarrow> Ran r s))"

section \<open>The cleaning script\<close>

text \<open>
  Lines 38-47 and 64-69 of the cleaning script:
  \<^verbatim>\<open>
  for term in terms:
      df = df.replace(term, pd.NA)
  df = df.replace(r"\.$", "", regex=True)
  \<close>
  The first replacement turns every cell equal to the term into NaN. The second applies
  \<^verbatim>\<open>re.sub(r"\.$", "", s)\<close> to every text cell: \<^verbatim>\<open>$\<close> matches at the end of the
  string and before a newline that ends it, so the period removed is the last character,
  or the one before a final newline, and at most one period goes.
\<close>

definition terms :: "string list" where
  "terms =
     [''No gesture performed.'',
      ''No hand gesture performed.'',
      ''The user does not perform any gesture.'',
      ''The user does not perform any hand gesture.'',
      ''The user does not perform any hand gestures.'',
      ''The user does not perform any gesture throughout the sequence.'',
      ''The user does not perform any distinct gesture.'',
      ''No discernible hand gesture is performed.'']"

definition replace_value :: "dataframe \<Rightarrow> string \<Rightarrow> dataframe" where
  "replace_value d t =
     d\<lparr>rows := map (\<lambda>r c. if r c = Some t then None else r c) (rows d)\<rparr>"

definition sub_final_dot :: "string \<Rightarrow> string" where
  "sub_final_dot s =
     (if s \<noteq> [] \<and> last s = CHR ''.'' then butlast s
      else if 2 \<le> length s \<and> last s = CHR 0x0A \<and> last (butlast s) = CHR ''.''
      then butlast (butlast s) @ [CHR 0x0A]
      else s)"

text \<open>Whether the pattern \<^verbatim>\<open>\.$\<close> matches somewhere in the text.\<close>

definition matches_final_dot :: "string \<Rightarrow> bool" where
  "matches_final_dot s =
     ((s \<noteq> [] \<and> last s = CHR ''.'')
      \<or> (2 \<le> length s \<and> last s = CHR 0x0A \<and> last (butlast s) = CHR ''.''))"

definition replace_final_dot :: "dataframe \<Rightarrow> dataframe" where
  "replace_final_dot d =
     d\<lparr>rows := map (\<lambda>r c. map_option sub_final_dot (r c)) (rows d)\<rparr>"

definition clean :: "dataframe \<Rightarrow> dataframe" where
  "clean d = replace_final_dot (foldl replace_value d terms)"

text \<open>What the script does to one cell, as the lemma \<open>rows_clean\<close> below shows.\<close>

definition clean_cell :: "string option \<Rightarrow> string option" where
  "clean_cell x =
     (case x of
        None \<Rightarrow> None
      | Some s \<Rightarrow> if s \<in> set terms then None else Some (sub_final_dot s))"

section \<open>The command script\<close>

text \<open>
  \<open>predict_ucp_command\<close> ends with
  \<^verbatim>\<open>re.sub(r'[^a-zA-Z]', ' ', response_content).strip().capitalize()\<close>.
  The substitution puts one space for every character that is not an ASCII letter. In
  the UTF-8 encoding such a character is a first byte, which gives the space, and
  possibly continuation bytes (\<open>0x80\<close> to \<open>0xBF\<close>), which give nothing. What is left
  is ASCII, and \<open>strip\<close> and \<open>capitalize\<close> are the ASCII ones.
\<close>

definition is_upper :: "char \<Rightarrow> bool" where
  "is_upper c = (65 \<le> (of_char c :: nat) \<and> (of_char c :: nat) \<le> 90)"

definition is_lower :: "char \<Rightarrow> bool" where
  "is_lower c = (97 \<le> (of_char c :: nat) \<and> (of_char c :: nat) \<le> 122)"

definition is_ascii_letter :: "char \<Rightarrow> bool" where
  "is_ascii_letter c = (is_upper c \<or> is_lower c)"

definition is_continuation :: "char \<Rightarrow> bool" where
  "is_continuation c = (128 \<le> (of_char c :: nat) \<and> (of_char c :: nat) < 192)"

definition re_sub_non_letters :: "string \<Rightarrow> string" where
  "re_sub_non_letters s =
     concat (map (\<lambda>c. if is_ascii_letter c then [c]
                       else if is_continuation c then [] else [CHR '' '']) s)"

definition is_space :: "char \<Rightarrow> bool" where
  "is_space c =
     ((9 \<le> (of_char c :: nat) \<and> (of_char c :: nat) \<le> 13)
      \<or> (28 \<le> (of_char c :: nat) \<and> (of_char c :: nat) \<le> 32))"

definition strip :: "string \<Rightarrow> string" where
  "strip s = rev (dropWhile is_space (rev (dropWhile is_space s)))"

definition upper :: "char \<Rightarrow> char" where
  "upper c = (if is_lower c then char_of ((of_char c :: nat) - 32) else c)"

definition lower :: "char \<Rightarrow> char" where
  "lower c = (if is_upper c then char_of ((of_char c :: nat) + 32) else c)"

definition capitalize :: "string \<Rightarrow> string" where
  "capitalize s = (case s of [] \<Rightarrow> [] | c # cs \<Rightarrow> upper c # map lower cs)"

definition predict_ucp_command ::
  "environ \<Rightarrow> string service \<Rightarrow> nat \<Rightarrow> string \<Rightarrow> exn + string" where
  "predict_ucp_command env gpt n description =
     (case get_azure_openai_client env of
        Inl e \<Rightarrow> Inl e
      | Inr c \<Rightarrow>
          (case gpt n c description of
             Inl e \<Rightarrow> Inl e
           | Inr response_content \<Rightarrow>
               Inr (capitalize (strip (re_sub_non_letters response_content)))))"

text \<open>
  The innermost loop body, lines 186-218: description number \<open>i\<close> (from 0) of one
  annotation row. A NaN description is skipped. The test \<^verbatim>\<open>if result is None\<close> never holds, the function
  returning a string, and has no branch here. \<open>py_str\<close> is how the f-string prints the
  identifier.
\<close>

definition py_str :: "string option \<Rightarrow> string" where
  "py_str v = (case v of None \<Rightarrow> ''nan'' | Some s \<Rightarrow> s)"

definition process_description ::
  "string \<Rightarrow> environ \<Rightarrow> string service \<Rightarrow> string option \<Rightarrow> nat \<Rightarrow> string option \<Rightarrow> state
     \<Rightarrow> exn option \<times> state" where
  "process_description file_path env gpt key i description s =
     (case description of
        None \<Rightarrow> (None, s)
      | Some desc \<Rightarrow>
          (let COMMAND_COL = ''c'' @ str_nat (i + 1) @ ''_command'';
               s1 = s\<lparr>out := out s @ [''Processing '' @ py_str key @ '' / description ''
                                        @ COMMAND_COL @ ''...'']\<rparr>;
               s2 = s1\<lparr>calls := Suc (calls s1)\<rparr>
           in (case is_absent (df s1) key COMMAND_COL of
                 Inl e \<Rightarrow> (Some e, s1)
               | Inr False \<Rightarrow> (None, s1)
               | Inr True \<Rightarrow>
                   (case predict_ucp_command env gpt (calls s1) desc of
                      Inl (RuntimeError m) \<Rightarrow>
                        (None, s2\<lparr>out := out s2 @ [''Exception Error: '' @ m @ ''.'']\<rparr>)
                    | Inl e \<Rightarrow> (Some e, s2)
                    | Inr result \<Rightarrow>
                        (case set_cell (df s1) key COMMAND_COL (strip result) of
                           Inl e \<Rightarrow> (Some e, s2)
                         | Inr d2 \<Rightarrow>
                             (None, s2\<lparr>df := d2, fs := save d2 file_path (fs s2)\<rparr>))))))"

fun run_descriptions ::
  "string \<Rightarrow> environ \<Rightarrow> string service \<Rightarrow> string option \<Rightarrow> nat \<Rightarrow> string option list
     \<Rightarrow> state \<Rightarrow> exn option \<times> state" where
  "run_descriptions file_path env gpt key i [] s = (None, s)"
| "run_descriptions file_path env gpt key i (d # ds) s =
     (case process_description file_path env gpt key i d s of
        (Some e, s') \<Rightarrow> (Some e, s')
      | (None, s') \<Rightarrow> run_descriptions file_path env gpt key (Suc i) ds s')"

text \<open>
  The loop over the rows of the annotation frame, lines 176-218: the identifier is the
  cell \<^verbatim>\<open>row["id_video"]\<close>, the descriptions are \<^verbatim>\<open>row.values[1:]\<close>, the cells of
  the row after the first column.
\<close>

definition process_row ::
  "string \<Rightarrow> environ \<Rightarrow> string service \<Rightarrow> string list \<Rightarrow> row \<Rightarrow> state
     \<Rightarrow> exn option \<times> state" where
  "process_row file_path env gpt labels r s =
     (if ''id_video'' \<notin> set labels then (Some (KeyError ''id_video''), s)
      else
        (case ensure_row (df s) (r ''id_video'') of
           Inl e \<Rightarrow> (Some e, s)
         | Inr d1 \<Rightarrow>
             run_descriptions file_path env gpt (r ''id_video'') 0 (map r (tl labels))
               (s\<lparr>df := d1\<rparr>)))"

fun run_rows ::
  "string \<Rightarrow> environ \<Rightarrow> string service \<Rightarrow> string list \<Rightarrow> row list \<Rightarrow> state
     \<Rightarrow> exn option \<times> state" where
  "run_rows file_path env gpt labels [] s = (None, s)"
| "run_rows file_path env gpt labels (r # rs) s =
     (case process_row file_path env gpt labels r s of
        (Some e, s') \<Rightarrow> (Some e, s')
      | (None, s') \<Rightarrow> run_rows file_path env gpt labels rs s')"

text \<open>One annotation file: the loop over its rows, then sort and save (lines 220-224).\<close>

definition predict_commands ::
  "string \<Rightarrow> environ \<Rightarrow> string service \<Rightarrow> dataframe \<Rightarrow> state \<Rightarrow> exn option \<times> state" where
  "predict_commands file_path env gpt df_annotations s =
     (case run_rows file_path env gpt (columns df_annotations) (rows df_annotations) s of
        (Some e, s') \<Rightarrow> (Some e, s')
      | (None, s') \<Rightarrow> finish file_path s')"

text \<open>
  The shape the normalisation gives a command: ASCII letters and spaces only, no
  whitespace at either end, an upper-case first letter and no other upper-case letter.
\<close>

definition command_shaped :: "string \<Rightarrow> bool" where
  "command_shaped v =
     ((\<forall>c \<in> set v. is_ascii_letter c \<or> c = CHR '' '')
      \<and> (v \<noteq> [] \<longrightarrow> \<not> is_space (hd v) \<and> \<not> is_space (last v) \<and> is_upper (hd v))
      \<and> (\<forall>c \<in> set (tl v). is_ascii_letter c \<longrightarrow> is_lower c))"

text \<open>
  A frame \<open>d'\<close> adds only commands to a frame \<open>d\<close> when every text cell of \<open>d'\<close> outside
  the identifier column is command shaped or is the text of a cell of \<open>d\<close> in the same
  column.
\<close>

definition adds_only_commands :: "dataframe \<Rightarrow> dataframe \<Rightarrow> bool" where
  "adds_only_commands d d' =
     (\<forall>r' \<in> set (rows d'). \<forall>c v. c \<noteq> ''id_video'' \<longrightarrow> r' c = Some v \<longrightarrow>
        command_shaped v \<or> (\<exists>r \<in> set (rows d). r c = Some v))"

section \<open>Notions for the statements about the loop\<close>

text \<open>
  \<open>keeps_filled rs rs'\<close>: the rows \<open>rs'\<close> start with the rows \<open>rs\<close>, position by
  position, except that a NaN cell may have become text. \<open>filled d key col\<close>: some row
  of \<open>d\<close> with identifier \<open>key\<close> has text in column \<open>col\<close>, which is when the guard of
  the loop skips the cell. \<open>blank_row key\<close>: the row \<open>ensure_row\<close> appends.
\<close>

definition keeps_filled :: "row list \<Rightarrow> row list \<Rightarrow> bool" where
  "keeps_filled rs rs' =
     (length rs \<le> length rs' \<and>
      (\<forall>i < length rs. \<forall>c v. (rs ! i) c = Some v \<longrightarrow> (rs' ! i) c = Some v))"

definition filled :: "dataframe \<Rightarrow> string \<Rightarrow> string \<Rightarrow> bool" where
  "filled d key col = (\<exists>r \<in> set (rows d). r ''id_video'' = Some key \<and> r col \<noteq> None)"

definition blank_row :: "string \<Rightarrow> row" where
  "blank_row key = (\<lambda>c. if c = ''id_video'' then Some key else None)"

text \<open>
  For the runs without credentials: the line the loop prints for a folder, the frame
  after \<open>ensure_row\<close> for a string key, whether the guard lets a folder through to the
  source (it has files and its cell is not filled), and the folders a loop gets to when
  the first call of the source ends it: those before the first that needs work, and
  that one.
\<close>

definition announcement :: "folder \<Rightarrow> string" where
  "announcement fo =
     ''Processing '' @ id_video fo @ '' / description '' @ id_description fo @ ''...''"

definition with_row :: "dataframe \<Rightarrow> string \<Rightarrow> dataframe" where
  "with_row d key =
     (if Some key \<in> set (ids d) then d else d\<lparr>rows := rows d @ [blank_row key]\<rparr>)"

definition needs_work :: "dataframe \<Rightarrow> folder \<Rightarrow> bool" where
  "needs_work d fo =
     (filenames fo \<noteq> [] \<and> \<not> filled d (id_video fo) (id_description fo @ ''_description''))"

definition reached :: "dataframe \<Rightarrow> folder list \<Rightarrow> folder list" where
  "reached d fos =
     takeWhile (\<lambda>fo. \<not> needs_work d fo) fos @ take 1 (dropWhile (\<lambda>fo. \<not> needs_work d fo) fos)"

section \<open>Inputs for the examples\<close>

text \<open>
  An environment with both variables set, a fresh state over a frame (nothing on disk,
  nothing printed, no call made), and the empty environment is \<open>Map.empty\<close>.
\<close>

definition example_env :: environ where
  "example_env =
     [''AZURE_OPENAI_API_KEY'' \<mapsto> ''secret'', ''AZURE_OPENAI_ENDPOINT'' \<mapsto> ''https://host'']"

definition fresh :: "dataframe \<Rightarrow> state" where
  "fresh d = \<lparr>df = d, fs = Map.empty, out = [], calls = 0\<rparr>"

section \<open>Properties of the table operations\<close>

lemma getitem_id:
  "''id_video'' \<in> set (columns d) \<Longrightarrow> getitem d ''id_video'' = Inr (ids d)"
  by (simp add: getitem_def ids_def)

lemma pd_concat_id_frame:
  "''id_video'' \<in> set (columns d) \<Longrightarrow>
   pd_concat d (id_frame key) = d\<lparr>rows := rows d @ rows (id_frame key)\<rparr>"
  by (simp add: pd_concat_def id_frame_def)

lemma list_ex_py_eq_Some: "list_ex (\<lambda>x. py_eq x (Some k)) xs \<longleftrightarrow> Some k \<in> set xs"
  by (auto simp: list_ex_iff py_eq_def)

lemma ensure_row_eq:
  "''id_video'' \<in> set (columns d) \<Longrightarrow>
   ensure_row d (Some key) =
     Inr (if Some key \<in> set (ids d) then d
          else d\<lparr>rows := rows d @ rows (id_frame (Some key))\<rparr>)"
  by (simp add: ensure_row_def getitem_id pd_concat_id_frame list_ex_py_eq_Some)

declare str_nat.simps [simp del]

lemma str_nat_digits:
  "map str_nat [1..<9] = map (\<lambda>c. [c]) ''12345678''"
  by code_simp

lemma schema_columns_eq:
  "schema_columns kind =
     [''id_video'', ''c1_'' @ kind, ''c2_'' @ kind, ''c3_'' @ kind, ''c4_'' @ kind,
      ''c5_'' @ kind, ''c6_'' @ kind, ''c7_'' @ kind, ''c8_'' @ kind]"
proof -
  have "map (\<lambda>i. ''c'' @ str_nat i @ ''_'' @ kind) [1..<9]
        = map (\<lambda>d. ''c'' @ d @ ''_'' @ kind) (map str_nat [1..<9])"
    by (simp only: map_map comp_def)
  then show ?thesis
    by (simp only: schema_columns_def str_nat_digits) simp
qed

lemma set_cell_rows_unmatched:
  assumes "Some key \<notin> set (ids t)"
  shows "map (\<lambda>r. if py_eq (r ''id_video'') (Some key) then r(col \<mapsto> v) else r) (rows t)
         = rows t"
proof (rule map_idI)
  fix r assume "r \<in> set (rows t)"
  then have "r ''id_video'' \<in> set (ids t)"
    by (simp add: ids_def)
  with assms have "r ''id_video'' \<noteq> Some key"
    by metis
  then show "(if py_eq (r ''id_video'') (Some key) then r(col \<mapsto> v) else r) = r"
    by (simp add: py_eq_def)
qed

text \<open>
  Claim C3, amended. On a table that has the identifier column and the column, when no
  row has the key, \<open>set_cell\<close> raises nothing: it returns normally, and the table it
  returns is the table it was given.
\<close>

theorem set_cell_no_row:
  assumes "''id_video'' \<in> set (columns t)" and "col \<in> set (columns t)"
    and "Some key \<notin> set (ids t)"
  shows "set_cell t (Some key) col v = Inr t"
  using assms by (simp add: set_cell_def getitem_def set_cell_rows_unmatched)

text \<open>
  Claim C8. On a table that has the identifier column and whose identifier values are
  unique, \<open>ensure_row\<close> with a string key succeeds and yields a table whose identifier
  values are unique: the same table when a row has the key, otherwise the table with one
  more row, last, that holds the key and NaN in every other column; and a second
  \<open>ensure_row\<close> with the same key changes nothing.
\<close>

theorem ensure_row_keeps_ids_unique:
  assumes "''id_video'' \<in> set (columns t)" and "distinct (ids t)"
  shows "\<exists>t'. ensure_row t (Some key) = Inr t' \<and> distinct (ids t') \<and>
           (Some key \<in> set (ids t) \<longrightarrow> t' = t) \<and>
           (Some key \<notin> set (ids t) \<longrightarrow>
              columns t' = columns t \<and>
              (\<exists>r. rows t' = rows t @ [r] \<and> r ''id_video'' = Some key \<and>
                   (\<forall>c. c \<noteq> ''id_video'' \<longrightarrow> r c = None))) \<and>
           ensure_row t' (Some key) = Inr t'"
  using assms by (auto simp: ensure_row_eq ids_def id_frame_def)

text \<open>A table with one row \<open>v1\<close>, and the new key \<open>v2\<close>.\<close>

theorem ensure_row_keeps_ids_unique_witness:
  "''id_video'' \<in> set (columns \<lparr>columns = [''id_video'', ''c1_description''],
                                    rows = [[''id_video'' \<mapsto> ''v1'']]\<rparr>) \<and>
   distinct (ids \<lparr>columns = [''id_video'', ''c1_description''],
                    rows = [[''id_video'' \<mapsto> ''v1'']]\<rparr>) \<and>
   (\<exists>t'. ensure_row \<lparr>columns = [''id_video'', ''c1_description''],
                         rows = [[''id_video'' \<mapsto> ''v1'']]\<rparr> (Some ''v2'') = Inr t' \<and>
         distinct (ids t') \<and> length (rows t') = 2 \<and>
         ensure_row t' (Some ''v2'') = Inr t')"
  using ensure_row_keeps_ids_unique
    [of "\<lparr>columns = [''id_video'', ''c1_description''],
          rows = [[''id_video'' \<mapsto> ''v1'']]\<rparr>" "''v2''"]
  by (auto simp: ids_def)

text \<open>
  Claim C3 as stated fails: on the empty table of the schema, which has no row \<open>v1\<close>,
  the assignment returns normally with the table unchanged.
\<close>

theorem set_cell_no_row_counterexample:
  "Some ''v1'' \<notin> set (ids (DataFrame (schema_columns ''description''))) \<and>
   set_cell (DataFrame (schema_columns ''description'')) (Some ''v1'') ''c1_description''
     ''Hand raised'' = Inr (DataFrame (schema_columns ''description''))"
  by (simp add: set_cell_def getitem_def ids_def DataFrame_def schema_columns_eq)

text \<open>A table whose only row is \<open>v1\<close>, and the key \<open>v2\<close>.\<close>

theorem set_cell_no_row_witness:
  "''id_video'' \<in> set (columns \<lparr>columns = [''id_video'', ''c1_description''],
                                    rows = [[''id_video'' \<mapsto> ''v1'']]\<rparr>) \<and>
   ''c1_description'' \<in> set (columns \<lparr>columns = [''id_video'', ''c1_description''],
                                          rows = [[''id_video'' \<mapsto> ''v1'']]\<rparr>) \<and>
   Some ''v2'' \<notin> set (ids \<lparr>columns = [''id_video'', ''c1_description''],
                               rows = [[''id_video'' \<mapsto> ''v1'']]\<rparr>) \<and>
   set_cell \<lparr>columns = [''id_video'', ''c1_description''],
             rows = [[''id_video'' \<mapsto> ''v1'']]\<rparr> (Some ''v2'') ''c1_description''
       ''Hand raised''
     = Inr \<lparr>columns = [''id_video'', ''c1_description''],
            rows = [[''id_video'' \<mapsto> ''v1'']]\<rparr>"
proof -
  let ?t = "\<lparr>columns = [''id_video'', ''c1_description''],
            rows = [[''id_video'' \<mapsto> ''v1'']]\<rparr>"
  have h: "''id_video'' \<in> set (columns ?t)" "''c1_description'' \<in> set (columns ?t)"
    "Some ''v2'' \<notin> set (ids ?t)"
    by (simp_all add: ids_def)
  from h set_cell_no_row [OF h, of "''Hand raised''"] show ?thesis
    by (intro conjI)
qed

text \<open>
  Claim C9. When no file exists at the path, \<open>load\<close> with the schema returns the empty
  table: the identifier column followed by the eight slot columns, and no row.
\<close>

theorem load_missing_file:
  "files file_path = None \<Longrightarrow>
   load typed files file_path (schema_columns kind) =
     Frame \<lparr>columns = [''id_video'', ''c1_'' @ kind, ''c2_'' @ kind, ''c3_'' @ kind,
                        ''c4_'' @ kind, ''c5_'' @ kind, ''c6_'' @ kind, ''c7_'' @ kind,
                        ''c8_'' @ kind],
            rows = []\<rparr>"
  by (simp add: load_def DataFrame_def schema_columns_eq)

theorem load_missing_file_witness:
  "Map.empty ''d3.csv'' = (None :: csv option) \<and>
   load (\<lambda>fs. False) Map.empty ''d3.csv'' (schema_columns ''description'') =
     Frame \<lparr>columns = [''id_video'', ''c1_description'', ''c2_description'',
                        ''c3_description'', ''c4_description'', ''c5_description'',
                        ''c6_description'', ''c7_description'', ''c8_description''],
            rows = []\<rparr>"
  using load_missing_file [of Map.empty "''d3.csv''" "\<lambda>fs. False" "''description''"]
  by simp

section \<open>Properties of the sampler\<close>

lemma sample_indices_length: "length (sample_indices n) = 50"
  by (simp add: sample_indices_def SAMPLE_SIZE_def)

lemma sample_indices_nth:
  "i < 50 \<Longrightarrow> sample_indices n ! i = ((n - 1) * i) div 49"
  by (simp add: sample_indices_def SAMPLE_SIZE_def)

lemma index_step:
  assumes "50 < n" and "i < j"
  shows "((n - 1) * i) div 49 < ((n - 1) * j) div (49::nat)"
proof -
  have "(n - 1) * i + 49 \<le> (n - 1) * i + (n - 1)"
    using assms(1) by simp
  also have "\<dots> = (n - 1) * Suc i"
    by simp
  also have "\<dots> \<le> (n - 1) * j"
    using assms(2) by (intro mult_le_mono2) simp
  finally have "((n - 1) * i + 49) div 49 \<le> ((n - 1) * j) div 49"
    by (rule div_le_mono)
  then show ?thesis
    by simp
qed

lemma index_bound:
  assumes "0 < n" and "i < 50"
  shows "((n - 1) * i) div 49 < (n::nat)"
proof -
  have "(n - 1) * i \<le> (n - 1) * 49"
    using assms(2) by (intro mult_le_mono2) simp
  then have "((n - 1) * i) div 49 \<le> ((n - 1) * 49) div 49"
    by (rule div_le_mono)
  then show ?thesis
    using assms(1) by simp
qed

lemma sample_indices_strict:
  assumes "50 < n"
  shows "sorted_wrt (<) (sample_indices n)"
proof (unfold sorted_wrt_iff_nth_less, intro allI impI)
  fix i j
  assume ij: "i < j" and "j < length (sample_indices n)"
  then have "j < 50" and "i < 50"
    by (simp_all add: sample_indices_length)
  then show "sample_indices n ! i < sample_indices n ! j"
    using index_step [OF assms ij] by (simp only: sample_indices_nth)
qed

lemma sample_indices_bound:
  assumes "0 < n" and "k \<in> set (sample_indices n)"
  shows "k < n"
proof -
  from assms(2) obtain i where "i < 50" and "k = sample_indices n ! i"
    by (auto simp: in_set_conv_nth sample_indices_length)
  then show ?thesis
    using index_bound [OF assms(1), of i] by (simp only: sample_indices_nth)
qed

lemma sample_indices_in_range: "50 < n \<Longrightarrow> \<forall>k \<in> set (sample_indices n). k < n"
  using sample_indices_bound [of n] by simp

lemma picks_strict:
  fixes xs :: "'a::linorder list"
  assumes "sorted_wrt (<) xs" and "sorted_wrt (<) ks" and "\<forall>k \<in> set ks. k < length xs"
  shows "sorted_wrt (<) (map ((!) xs) ks)"
  unfolding sorted_wrt_map
  by (rule sorted_wrt_mono_rel [OF _ assms(2)])
     (use assms(1,3) in \<open>auto intro: sorted_wrt_nth_less\<close>)

lemma sample_long:
  assumes "sorted_wrt (<) xs" and "50 < length xs"
  shows "sample xs = map ((!) xs) (sample_indices (length xs))"
    and "sorted_wrt (<) (sample xs)"
proof -
  let ?ys = "map ((!) xs) (sample_indices (length xs))"
  have strict: "sorted_wrt (<) ?ys"
    using assms by (intro picks_strict sample_indices_strict sample_indices_in_range)
  then have "sort ?ys = ?ys"
    by (intro sorted_sort_id strict_sorted_imp_sorted)
  moreover have "sample xs = sort ?ys"
    using assms(2) by (simp add: sample_def)
  ultimately show "sample xs = ?ys"
    by simp
  with strict show "sorted_wrt (<) (sample xs)"
    by simp
qed

lemma sample_long_subset:
  assumes "sorted_wrt (<) xs" and "50 < length xs"
  shows "set (sample xs) \<subseteq> set xs"
proof
  fix x assume "x \<in> set (sample xs)"
  then obtain k where "k \<in> set (sample_indices (length xs))" and x: "x = xs ! k"
    by (auto simp: sample_long(1) [OF assms])
  then have "k < length xs"
    using sample_indices_in_range [OF assms(2)] by simp
  with x show "x \<in> set xs"
    by simp
qed

lemma sample_long_ends:
  assumes "sorted_wrt (<) xs" and "50 < length xs"
  shows "hd (sample xs) = hd xs" and "last (sample xs) = last xs"
proof -
  let ?ks = "sample_indices (length xs)"
  have ne: "?ks \<noteq> []" "xs \<noteq> []"
    using assms(2) sample_indices_length [of "length xs"] by auto
  have "hd ?ks = 0"
    using sample_indices_nth [of 0 "length xs"] ne(1) by (simp add: hd_conv_nth)
  then show "hd (sample xs) = hd xs"
    using assms ne by (simp add: sample_long(1) hd_map hd_conv_nth)
  have "last ?ks = length xs - 1"
    using sample_indices_nth [of 49 "length xs"] ne(1)
    by (simp add: last_conv_nth sample_indices_length)
  then show "last (sample xs) = last xs"
    using assms ne by (simp add: sample_long(1) last_map last_conv_nth)
qed

text \<open>
  Claim C5. A list of 120 file names in ascending order (the scripts sort what the
  directory listing gives, so the names are distinct and ascending) is sampled to
  exactly 50 distinct names of the list, the first and the last among them, in the
  order they have in the list; a list of at most 50 names is returned as it is.
\<close>

theorem sample_120_of_50:
  "(sorted_wrt (<) xs \<and> length xs = 120 \<longrightarrow>
      length (sample xs) = 50 \<and> distinct (sample xs) \<and> set (sample xs) \<subseteq> set xs \<and>
      hd (sample xs) = xs ! 0 \<and> last (sample xs) = xs ! 119 \<and> subseq (sample xs) xs) \<and>
   (length xs \<le> 50 \<longrightarrow> sample xs = xs)"
proof (intro conjI impI)
  assume "length xs \<le> 50"
  then show "sample xs = xs"
    by (simp add: sample_def)
next
  assume a: "sorted_wrt (<) xs \<and> length xs = 120"
  then have s: "sorted_wrt (<) xs" and l: "50 < length xs" and ne: "xs \<noteq> []"
    by auto
  show "length (sample xs) = 50"
    by (simp add: sample_long(1) [OF s l] sample_indices_length)
  show "distinct (sample xs)"
    using sample_long(2) [OF s l] by (simp add: strict_sorted_iff)
  show "set (sample xs) \<subseteq> set xs"
    by (rule sample_long_subset [OF s l])
  show "hd (sample xs) = xs ! 0"
    using sample_long_ends(1) [OF s l] ne by (simp add: hd_conv_nth)
  show "last (sample xs) = xs ! 119"
    using sample_long_ends(2) [OF s l] ne a by (simp add: last_conv_nth)
  show "subseq (sample xs) xs"
    by (rule sorted_subset_imp_subseq
          [OF sample_long_subset [OF s l] sample_long(2) [OF s l] strict_sorted_imp_sorted [OF s]])
qed

text \<open>A list of 120 one-character names in ascending order, and a list of two names.\<close>

theorem sample_120_of_50_witness:
  "sorted_wrt (<) (map (\<lambda>i. [char_of i]) [0..<120 :: nat]) \<and>
   length (map (\<lambda>i. [char_of i]) [0..<120 :: nat]) = 120 \<and>
   length (sample (map (\<lambda>i. [char_of i]) [0..<120 :: nat])) = 50 \<and>
   subseq (sample (map (\<lambda>i. [char_of i]) [0..<120 :: nat]))
     (map (\<lambda>i. [char_of i]) [0..<120 :: nat]) \<and>
   length [''a.png'', ''b.png''] \<le> 50 \<and>
   sample [''a.png'', ''b.png''] = [''a.png'', ''b.png'']"
proof -
  let ?xs = "map (\<lambda>i. [char_of i]) [0..<120 :: nat]"
  have "sorted_wrt (<) ?xs"
    unfolding sorted_wrt_map
    by (rule sorted_wrt_mono_rel [OF _ sorted_wrt_upt]) (simp add: less_char_def)
  moreover have "length ?xs = 120"
    by simp
  moreover have "length [''a.png'', ''b.png''] \<le> 50"
    by simp
  ultimately show ?thesis
    using sample_120_of_50 [of ?xs] sample_120_of_50 [of "[''a.png'', ''b.png'']"]
    by blast
qed

section \<open>Properties of the cleaning script\<close>

lemma foldl_replace_value:
  "foldl replace_value d ts =
     d\<lparr>rows := map (\<lambda>r c. if r c \<in> Some ` set ts then None else r c) (rows d)\<rparr>"
proof (induction ts arbitrary: d)
  case Nil
  show ?case
    by simp
next
  case (Cons t ts)
  let ?g = "\<lambda>(r :: row) c. if r c = Some t then None else r c"
  let ?f = "\<lambda>(r :: row) c. if r c \<in> Some ` set ts then None else r c"
  let ?h = "\<lambda>(r :: row) c. if r c \<in> Some ` set (t # ts) then None else r c"
  have h: "?f (?g r) = ?h r" for r
    by (auto simp: fun_eq_iff)
  have "foldl replace_value d (t # ts) = foldl replace_value (replace_value d t) ts"
    by simp
  also have "\<dots> = (replace_value d t)\<lparr>rows := map ?f (rows (replace_value d t))\<rparr>"
    by (rule Cons.IH)
  also have "replace_value d t = d\<lparr>rows := map ?g (rows d)\<rparr>"
    by (simp add: replace_value_def)
  also have "(d\<lparr>rows := map ?g (rows d)\<rparr>)\<lparr>rows := map ?f (rows (d\<lparr>rows := map ?g (rows d)\<rparr>))\<rparr>
             = d\<lparr>rows := map (\<lambda>r. ?f (?g r)) (rows d)\<rparr>"
    by (simp add: comp_def)
  also have "\<dots> = d\<lparr>rows := map ?h (rows d)\<rparr>"
    by (simp only: h)
  finally show ?case .
qed

lemma rows_clean: "rows (clean d) = map (\<lambda>r c. clean_cell (r c)) (rows d)"
  by (auto simp: clean_def replace_final_dot_def foldl_replace_value clean_cell_def fun_eq_iff
           split: option.splits)

lemma columns_clean: "columns (clean d) = columns d"
  by (simp add: clean_def replace_final_dot_def foldl_replace_value)

lemma more_clean: "dataframe.more (clean d) = dataframe.more d"
  by (simp add: clean_def replace_final_dot_def foldl_replace_value)

lemma sub_final_dot_fixed: "sub_final_dot s = s \<longleftrightarrow> \<not> matches_final_dot s"
proof (cases "matches_final_dot s")
  case False
  then show ?thesis
    by (auto simp: sub_final_dot_def matches_final_dot_def)
next
  case True
  then have "length (sub_final_dot s) < length s"
    by (auto simp: sub_final_dot_def matches_final_dot_def)
  with True show ?thesis
    by auto
qed

lemma terms_match: "t \<in> set terms \<Longrightarrow> matches_final_dot t"
  by (auto simp: terms_def matches_final_dot_def)

lemma clean_cell_twice:
  "clean_cell (clean_cell x) = clean_cell x \<longleftrightarrow>
     (\<forall>s. x = Some s \<longrightarrow> s \<in> set terms \<or> \<not> matches_final_dot (sub_final_dot s))"
proof (cases x)
  case None
  then show ?thesis
    by (simp add: clean_cell_def)
next
  case (Some s)
  show ?thesis
  proof (cases "s \<in> set terms")
    case True
    with Some show ?thesis
      by (simp add: clean_cell_def)
  next
    case False
    with Some have "clean_cell (clean_cell x) = clean_cell x \<longleftrightarrow>
        sub_final_dot s \<notin> set terms \<and> sub_final_dot (sub_final_dot s) = sub_final_dot s"
      by (simp add: clean_cell_def)
    also have "\<dots> \<longleftrightarrow> \<not> matches_final_dot (sub_final_dot s)"
      using terms_match [of "sub_final_dot s"] by (auto simp: sub_final_dot_fixed)
    finally show ?thesis
      using Some False by simp
  qed
qed

lemma still_matches_rev:
  "matches_final_dot (sub_final_dot (rev t)) \<longleftrightarrow>
     prefix ''..'' t \<or> prefix [CHR ''.'', CHR 0x0A, CHR ''.''] t
     \<or> prefix [CHR 0x0A, CHR ''.'', CHR ''.''] t"
proof (cases t)
  case Nil
  then show ?thesis
    by (simp add: matches_final_dot_def sub_final_dot_def butlast_append last_append)
next
  case t1: (Cons a t1)
  show ?thesis
  proof (cases t1)
    case Nil
    with t1 show ?thesis
      by (simp add: matches_final_dot_def sub_final_dot_def butlast_append last_append)
  next
    case t2: (Cons b t2)
    show ?thesis
    proof (cases t2)
      case Nil
      with t1 t2 show ?thesis
        by (auto simp: matches_final_dot_def sub_final_dot_def butlast_append last_append)
    next
      case (Cons c t3)
      with t1 t2 show ?thesis
        by (auto simp: matches_final_dot_def sub_final_dot_def butlast_append last_append)
    qed
  qed
qed

lemma still_matches:
  "matches_final_dot (sub_final_dot s) \<longleftrightarrow>
     suffix ''..'' s \<or> suffix [CHR ''.'', CHR 0x0A, CHR ''.''] s
     \<or> suffix [CHR ''.'', CHR ''.'', CHR 0x0A] s"
  using still_matches_rev [of "rev s"] by (simp add: suffix_to_prefix)


text \<open>
  Claim C2, amended. \<open>clean\<close> turns a cell equal to a blocklist sentence into NaN and
  removes one final period (the last character, or the one before a final newline) from
  every other text cell. Cleaning twice gives the table that cleaning once gives exactly
  when no text cell other than a blocklist sentence ends in two periods, in a period, a
  newline and a period, or in two periods and a newline.
\<close>

theorem clean_twice_iff:
  "clean (clean t) = clean t \<longleftrightarrow>
     (\<forall>r \<in> set (rows t). \<forall>c s. r c = Some s \<longrightarrow>
        s \<in> set terms \<or>
        \<not> (suffix ''..'' s \<or> suffix [CHR ''.'', CHR 0x0A, CHR ''.''] s
           \<or> suffix [CHR ''.'', CHR ''.'', CHR 0x0A] s))"
proof -
  have "clean (clean t) = clean t \<longleftrightarrow> rows (clean (clean t)) = rows (clean t)"
    by (auto simp: dataframe.equality columns_clean more_clean)
  also have "\<dots> \<longleftrightarrow>
      (\<forall>r \<in> set (rows t). \<forall>c. clean_cell (clean_cell (r c)) = clean_cell (r c))"
    by (auto simp: rows_clean fun_eq_iff)
  also have "\<dots> \<longleftrightarrow>
      (\<forall>r \<in> set (rows t). \<forall>c s. r c = Some s \<longrightarrow>
         s \<in> set terms \<or> \<not> matches_final_dot (sub_final_dot s))"
    by (simp only: clean_cell_twice)
  finally show ?thesis
    by (simp only: still_matches)
qed

text \<open>
  Claim C2 as stated fails on a cell that ends in two periods: the first pass leaves
  \<open>Hand raised.\<close>, the second \<open>Hand raised\<close>.
\<close>

theorem clean_twice_counterexample:
  "clean (clean \<lparr>columns = [''id_video'', ''c1_description''],
                   rows = [[''id_video'' \<mapsto> ''v1'', ''c1_description'' \<mapsto> ''Hand raised..'']]\<rparr>)
   \<noteq> clean \<lparr>columns = [''id_video'', ''c1_description''],
             rows = [[''id_video'' \<mapsto> ''v1'', ''c1_description'' \<mapsto> ''Hand raised..'']]\<rparr>"
proof -
  let ?t = "\<lparr>columns = [''id_video'', ''c1_description''],
            rows = [[''id_video'' \<mapsto> ''v1'', ''c1_description'' \<mapsto> ''Hand raised..'']]\<rparr>"
  have "hd (rows (clean ?t)) ''c1_description'' = Some ''Hand raised.''"
    by (simp add: rows_clean clean_cell_def terms_def sub_final_dot_def)
  moreover have "hd (rows (clean (clean ?t))) ''c1_description'' = Some ''Hand raised''"
    by (simp add: rows_clean clean_cell_def terms_def sub_final_dot_def)
  ultimately show ?thesis
    by auto
qed

text \<open>The two cells of the specification's example satisfy the condition.\<close>

theorem clean_twice_iff_witness:
  "''No gesture performed.'' \<in> set terms \<and>
   \<not> suffix ''..'' ''Hand raised.'' \<and>
   clean (clean \<lparr>columns = [''id_video'', ''c1_description'', ''c2_description''],
                  rows = [[''id_video'' \<mapsto> ''v1'',
                           ''c1_description'' \<mapsto> ''No gesture performed.'',
                           ''c2_description'' \<mapsto> ''Hand raised.'']]\<rparr>)
   = clean \<lparr>columns = [''id_video'', ''c1_description'', ''c2_description''],
            rows = [[''id_video'' \<mapsto> ''v1'',
                     ''c1_description'' \<mapsto> ''No gesture performed.'',
                     ''c2_description'' \<mapsto> ''Hand raised.'']]\<rparr>"
proof -
  let ?t = "\<lparr>columns = [''id_video'', ''c1_description'', ''c2_description''],
            rows = [[''id_video'' \<mapsto> ''v1'',
                     ''c1_description'' \<mapsto> ''No gesture performed.'',
                     ''c2_description'' \<mapsto> ''Hand raised.'']]\<rparr>"
  have h: "\<forall>r \<in> set (rows ?t). \<forall>c s. r c = Some s \<longrightarrow>
             s \<in> set terms \<or>
             \<not> (suffix ''..'' s \<or> suffix [CHR ''.'', CHR 0x0A, CHR ''.''] s
                \<or> suffix [CHR ''.'', CHR ''.'', CHR 0x0A] s)"
    by (simp add: terms_def suffix_to_prefix)
  have "''No gesture performed.'' \<in> set terms"
    and "\<not> suffix ''..'' ''Hand raised.''"
    by (simp_all add: terms_def suffix_to_prefix)
  with h clean_twice_iff [of ?t] show ?thesis
    by blast
qed

section \<open>Properties of the command script\<close>

lemma of_char_less_256: "(of_char c :: nat) < 256"
  by (rule nat_of_char_less_256)

lemma dropWhile_fixed: "xs = [] \<or> \<not> P (hd xs) \<Longrightarrow> dropWhile P xs = xs"
  by (cases xs) auto

lemma re_sub_chars:
  "c \<in> set (re_sub_non_letters s) \<Longrightarrow> is_ascii_letter c \<or> c = CHR '' ''"
  by (auto simp: re_sub_non_letters_def split: if_splits)

lemma set_strip: "set (strip s) \<subseteq> set s"
proof -
  have "set (strip s) \<subseteq> set (dropWhile is_space s)"
    using set_dropWhileD [of _ is_space "rev (dropWhile is_space s)"]
    by (auto simp: strip_def)
  also have "\<dots> \<subseteq> set s"
    using set_dropWhileD [of _ is_space s] by auto
  finally show ?thesis .
qed

lemma last_dropWhile: "dropWhile P xs \<noteq> [] \<Longrightarrow> last (dropWhile P xs) = last xs"
  by (induction xs) (auto split: if_splits)

lemma strip_ends:
  assumes "strip s \<noteq> []"
  shows "\<not> is_space (hd (strip s))" and "\<not> is_space (last (strip s))"
proof -
  let ?t = "dropWhile is_space s"
  let ?u = "dropWhile is_space (rev ?t)"
  from assms have u: "?u \<noteq> []"
    by (simp add: strip_def)
  then have "rev ?t \<noteq> []"
    by (metis dropWhile.simps(1))
  then have t: "?t \<noteq> []"
    by simp
  have "last (strip s) = hd ?u"
    using u by (simp add: strip_def last_rev)
  then show "\<not> is_space (last (strip s))"
    using hd_dropWhile [OF u] by simp
  have "hd (strip s) = last ?u"
    using u by (simp add: strip_def hd_rev)
  also have "\<dots> = last (rev ?t)"
    using u by (rule last_dropWhile)
  also have "\<dots> = hd ?t"
    using t by (simp add: last_rev)
  finally show "\<not> is_space (hd (strip s))"
    using hd_dropWhile [OF t] by simp
qed

lemma strip_fixed:
  assumes "v \<noteq> [] \<longrightarrow> \<not> is_space (hd v) \<and> \<not> is_space (last v)"
  shows "strip v = v"
proof -
  have "dropWhile is_space v = v"
    using assms by (intro dropWhile_fixed) auto
  moreover have "dropWhile is_space (rev v) = rev v"
    using assms by (intro dropWhile_fixed) (auto simp: hd_rev)
  ultimately show ?thesis
    by (simp add: strip_def)
qed

lemma upper_letter:
  assumes "is_ascii_letter c"
  shows "is_upper (upper c)"
proof (cases "is_lower c")
  case True
  define n where "n = (of_char c :: nat)"
  from True have "97 \<le> n" and "n \<le> 122"
    by (simp_all add: n_def is_lower_def)
  then have "(n - 32) mod 256 = n - 32" and "65 \<le> n - 32" and "n - 32 \<le> 90"
    by simp_all
  with True show ?thesis
    by (simp add: upper_def is_upper_def flip: n_def)
next
  case False
  with assms show ?thesis
    by (simp add: upper_def is_ascii_letter_def)
qed

lemma lower_letter:
  assumes "is_ascii_letter c"
  shows "is_lower (lower c)"
proof (cases "is_upper c")
  case True
  define n where "n = (of_char c :: nat)"
  from True have "65 \<le> n" and "n \<le> 90"
    by (simp_all add: n_def is_upper_def)
  then have "(n + 32) mod 256 = n + 32" and "97 \<le> n + 32" and "n + 32 \<le> 122"
    by simp_all
  with True show ?thesis
    by (simp add: lower_def is_lower_def flip: n_def)
next
  case False
  with assms show ?thesis
    by (simp add: lower_def is_ascii_letter_def)
qed

lemma lower_other: "\<not> is_ascii_letter c \<Longrightarrow> lower c = c"
  by (simp add: is_ascii_letter_def lower_def)

lemma letter_not_space: "is_ascii_letter c \<Longrightarrow> \<not> is_space c"
  by (auto simp: is_ascii_letter_def is_upper_def is_lower_def is_space_def)

lemma lower_not_space: "\<not> is_space c \<Longrightarrow> \<not> is_space (lower c)"
  using lower_letter [of c] letter_not_space [of "lower c"] lower_other [of c]
  by (cases "is_ascii_letter c") (auto simp: is_ascii_letter_def)

lemma space_is_space: "is_space CHR '' ''"
  by (simp add: is_space_def)

lemma lower_letter_or_space:
  assumes "is_ascii_letter c \<or> c = CHR '' ''"
  shows "(is_ascii_letter (lower c) \<or> lower c = CHR '' '')"
    and "is_ascii_letter (lower c) \<longrightarrow> is_lower (lower c)"
proof -
  show "is_ascii_letter (lower c) \<or> lower c = CHR '' ''"
  proof (cases "is_ascii_letter c")
    case True
    then show ?thesis
      using lower_letter [of c] by (simp add: is_ascii_letter_def)
  next
    case False
    with assms show ?thesis
      by (simp add: lower_other)
  qed
  show "is_ascii_letter (lower c) \<longrightarrow> is_lower (lower c)"
  proof (cases "is_ascii_letter c")
    case True
    then show ?thesis
      using lower_letter [of c] by simp
  next
    case False
    then show ?thesis
      by (simp add: lower_other)
  qed
qed

lemma capitalize_shaped:
  assumes chars: "\<forall>c \<in> set u. is_ascii_letter c \<or> c = CHR '' ''"
    and ends: "u \<noteq> [] \<longrightarrow> \<not> is_space (hd u) \<and> \<not> is_space (last u)"
  shows "command_shaped (capitalize u)"
proof (cases u)
  case Nil
  then show ?thesis
    by (simp add: capitalize_def command_shaped_def)
next
  case (Cons a as)
  let ?v = "upper a # map lower as"
  have cap: "capitalize u = ?v"
    using Cons by (simp add: capitalize_def)
  from Cons ends have "\<not> is_space a"
    by simp
  with chars Cons have a: "is_ascii_letter a"
    using space_is_space by auto
  have up: "is_upper (upper a)"
    by (rule upper_letter [OF a])
  then have up_letter: "is_ascii_letter (upper a)"
    by (simp add: is_ascii_letter_def)
  have as: "is_ascii_letter c \<or> c = CHR '' ''" if "c \<in> set as" for c
    using that chars Cons by simp
  have 1: "\<forall>c \<in> set ?v. is_ascii_letter c \<or> c = CHR '' ''"
    using up_letter lower_letter_or_space(1) [OF as] by auto
  have 3: "\<forall>c \<in> set (tl ?v). is_ascii_letter c \<longrightarrow> is_lower c"
    using lower_letter_or_space(2) [OF as] by auto
  have last: "\<not> is_space (last ?v)"
  proof (cases "as = []")
    case True
    then show ?thesis
      using up_letter by (simp add: letter_not_space)
  next
    case False
    then have "last ?v = lower (last as)"
      by (simp add: last_map)
    moreover from False Cons ends have "\<not> is_space (last as)"
      by simp
    ultimately show ?thesis
      by (simp add: lower_not_space)
  qed
  have 2: "\<not> is_space (hd ?v) \<and> \<not> is_space (last ?v) \<and> is_upper (hd ?v)"
    using up up_letter last by (simp add: letter_not_space)
  show ?thesis
    unfolding cap command_shaped_def using 1 2 3 by blast
qed

lemma normalised_shaped: "command_shaped (capitalize (strip (re_sub_non_letters r)))"
proof (rule capitalize_shaped)
  show "\<forall>c \<in> set (strip (re_sub_non_letters r)). is_ascii_letter c \<or> c = CHR '' ''"
    using set_strip [of "re_sub_non_letters r"] re_sub_chars [of _ r] by blast
  show "strip (re_sub_non_letters r) \<noteq> [] \<longrightarrow>
        \<not> is_space (hd (strip (re_sub_non_letters r))) \<and>
        \<not> is_space (last (strip (re_sub_non_letters r)))"
    using strip_ends [of "re_sub_non_letters r"] by blast
qed

lemma strip_shaped: "command_shaped v \<Longrightarrow> strip v = v"
  by (rule strip_fixed) (simp add: command_shaped_def)

lemma predict_ucp_command_shaped:
  assumes "predict_ucp_command env gpt n d = Inr result"
  shows "command_shaped result" and "strip result = result"
proof -
  from assms obtain r where "result = capitalize (strip (re_sub_non_letters r))"
    by (auto simp: predict_ucp_command_def split: sum.splits)
  then show "command_shaped result"
    by (simp add: normalised_shaped)
  then show "strip result = result"
    by (rule strip_shaped)
qed

lemma adds_refl: "adds_only_commands d d"
  by (auto simp: adds_only_commands_def)

lemma adds_trans:
  assumes "adds_only_commands a b" and "adds_only_commands b c"
  shows "adds_only_commands a c"
  unfolding adds_only_commands_def
proof (intro ballI allI impI)
  fix r'' col v
  assume r'': "r'' \<in> set (rows c)" and col: "col \<noteq> ''id_video''" and v: "r'' col = Some v"
  with assms(2) have "command_shaped v \<or> (\<exists>r' \<in> set (rows b). r' col = Some v)"
    by (simp add: adds_only_commands_def)
  then show "command_shaped v \<or> (\<exists>r \<in> set (rows a). r col = Some v)"
    using assms(1) col by (auto simp: adds_only_commands_def)
qed

lemma adds_same_rows: "set (rows d') = set (rows d) \<Longrightarrow> adds_only_commands d d'"
  by (auto simp: adds_only_commands_def)

lemma adds_ensure_row: "ensure_row d key = Inr d1 \<Longrightarrow> adds_only_commands d d1"
  by (auto simp: ensure_row_def pd_concat_def id_frame_def adds_only_commands_def
           split: sum.splits if_splits)

lemma adds_set_cell:
  assumes "set_cell d key col v = Inr d2" and "command_shaped v"
  shows "adds_only_commands d d2"
proof -
  from assms(1) have
    "rows d2 = map (\<lambda>r. if py_eq (r ''id_video'') key then r(col \<mapsto> v) else r) (rows d)"
    by (auto simp: set_cell_def split: sum.splits if_splits)
  with assms(2) show ?thesis
    by (auto simp: adds_only_commands_def split: if_splits)
qed

lemma adds_sort_by_key: "sort_by_key d = Inr d' \<Longrightarrow> adds_only_commands d d'"
  by (rule adds_same_rows) (auto simp: sort_by_key_def split: sum.splits)

lemma adds_finish: "finish p s = (r, s') \<Longrightarrow> adds_only_commands (df s) (df s')"
  by (auto simp: finish_def adds_refl adds_sort_by_key split: sum.splits)

lemma adds_process_description:
  assumes "process_description p env gpt key i description s = (r, s')"
  shows "adds_only_commands (df s) (df s')"
proof (cases description)
  case None
  with assms show ?thesis
    by (simp add: process_description_def adds_refl)
next
  case (Some desc)
  let ?col = "''c'' @ str_nat (i + 1) @ ''_command''"
  show ?thesis
  proof (cases "predict_ucp_command env gpt (calls s) desc")
    case (Inl e)
    with assms Some have "df s' = df s"
      by (auto simp: process_description_def Let_def
               split: sum.splits bool.splits exn.splits)
    then show ?thesis
      by (simp add: adds_refl)
  next
    case (Inr result)
    then have shaped: "command_shaped (strip result)"
      using predict_ucp_command_shaped [OF Inr] by simp
    from assms Some Inr have "df s' = df s \<or> set_cell (df s) key ?col (strip result) = Inr (df s')"
      by (auto simp: process_description_def Let_def split: sum.splits bool.splits)
    then show ?thesis
      using adds_set_cell [OF _ shaped] adds_refl by auto
  qed
qed

lemma adds_run_descriptions:
  "run_descriptions p env gpt key i ds s = (r, s') \<Longrightarrow> adds_only_commands (df s) (df s')"
proof (induction ds arbitrary: i s)
  case Nil
  then show ?case
    by (simp add: adds_refl)
next
  case (Cons d ds)
  obtain r1 s1 where step: "process_description p env gpt key i d s = (r1, s1)"
    by (cases "process_description p env gpt key i d s")
  note one = adds_process_description [OF step]
  show ?case
  proof (cases r1)
    case None
    with Cons.prems step have "run_descriptions p env gpt key (Suc i) ds s1 = (r, s')"
      by simp
    then show ?thesis
      using Cons.IH one adds_trans by blast
  next
    case (Some e)
    with Cons.prems step have "s' = s1"
      by simp
    with one show ?thesis
      by simp
  qed
qed

lemma adds_process_row:
  assumes "process_row p env gpt labels row s = (r, s')"
  shows "adds_only_commands (df s) (df s')"
proof (cases "''id_video'' \<in> set labels")
  case False
  with assms show ?thesis
    by (simp add: process_row_def adds_refl)
next
  case True
  show ?thesis
  proof (cases "ensure_row (df s) (row ''id_video'')")
    case (Inl e)
    with assms True show ?thesis
      by (simp add: process_row_def adds_refl)
  next
    case (Inr d1)
    with assms True have
      "run_descriptions p env gpt (row ''id_video'') 0 (map row (tl labels)) (s\<lparr>df := d1\<rparr>)
       = (r, s')"
      by (simp add: process_row_def)
    from adds_run_descriptions [OF this] adds_ensure_row [OF Inr] show ?thesis
      using adds_trans by simp
  qed
qed

lemma adds_run_rows:
  "run_rows p env gpt labels rs s = (r, s') \<Longrightarrow> adds_only_commands (df s) (df s')"
proof (induction rs arbitrary: s)
  case Nil
  then show ?case
    by (simp add: adds_refl)
next
  case (Cons row rs)
  obtain r1 s1 where step: "process_row p env gpt labels row s = (r1, s1)"
    by (cases "process_row p env gpt labels row s")
  note one = adds_process_row [OF step]
  show ?case
  proof (cases r1)
    case None
    with Cons.prems step have "run_rows p env gpt labels rs s1 = (r, s')"
      by simp
    then show ?thesis
      using Cons.IH one adds_trans by blast
  next
    case (Some e)
    with Cons.prems step have "s' = s1"
      by simp
    with one show ?thesis
      by simp
  qed
qed

text \<open>
  Claim C10. After the command script has processed an annotation file, every text cell
  of the table outside the identifier column either was already in that column before
  the run or is a stored command: it holds ASCII letters and spaces only, has no
  whitespace at either end and, when it is not empty, starts with an upper-case letter,
  every later letter being lower-case.
\<close>

theorem stored_commands_shaped:
  assumes "predict_commands file_path env gpt df_annotations s = (r, s')"
  shows "\<forall>row' \<in> set (rows (df s')). \<forall>c v. c \<noteq> ''id_video'' \<longrightarrow> row' c = Some v \<longrightarrow>
           ((\<forall>x \<in> set v. is_ascii_letter x \<or> x = CHR '' '')
            \<and> (v \<noteq> [] \<longrightarrow> \<not> is_space (hd v) \<and> \<not> is_space (last v) \<and> is_upper (hd v))
            \<and> (\<forall>x \<in> set (tl v). is_ascii_letter x \<longrightarrow> is_lower x))
           \<or> (\<exists>row \<in> set (rows (df s)). row c = Some v)"
proof -
  obtain r1 s1 where loop:
    "run_rows file_path env gpt (columns df_annotations) (rows df_annotations) s = (r1, s1)"
    by (cases "run_rows file_path env gpt (columns df_annotations) (rows df_annotations) s")
  have "adds_only_commands (df s1) (df s')"
  proof (cases r1)
    case None
    with assms loop have "finish file_path s1 = (r, s')"
      by (simp add: predict_commands_def)
    then show ?thesis
      by (rule adds_finish)
  next
    case (Some e)
    with assms loop have "s' = s1"
      by (simp add: predict_commands_def)
    then show ?thesis
      by (simp add: adds_refl)
  qed
  with adds_run_rows [OF loop] have "adds_only_commands (df s) (df s')"
    by (rule adds_trans)
  then show ?thesis
    unfolding adds_only_commands_def command_shaped_def .
qed

text \<open>
  One annotation row with one description, an empty table, and a model that answers
  \<open>  mute the Microphone!!\<close>: the run ends normally and the cell holds
  \<open>Mute the microphone\<close>.
\<close>

theorem stored_commands_shaped_witness:
  "fst (predict_commands ''p.csv'' example_env (\<lambda>n c x. Inr ''  mute the Microphone!!'')
         \<lparr>columns = [''id_video'', ''c1_description''],
          rows = [[''id_video'' \<mapsto> ''v1'', ''c1_description'' \<mapsto> ''Hand over mouth'']]\<rparr>
         (fresh (DataFrame (schema_columns ''command'')))) = None \<and>
   map (\<lambda>r. r ''c1_command'')
     (rows (df (snd (predict_commands ''p.csv'' example_env
         (\<lambda>n c x. Inr ''  mute the Microphone!!'')
         \<lparr>columns = [''id_video'', ''c1_description''],
          rows = [[''id_video'' \<mapsto> ''v1'', ''c1_description'' \<mapsto> ''Hand over mouth'']]\<rparr>
         (fresh (DataFrame (schema_columns ''command''))))))) = [Some ''Mute the microphone''] \<and>
   is_upper (hd ''Mute the microphone'') \<and>
   \<not> is_space (last ''Mute the microphone'')"
proof -
  let ?run = "predict_commands ''p.csv'' example_env (\<lambda>n c x. Inr ''  mute the Microphone!!'')
         \<lparr>columns = [''id_video'', ''c1_description''],
          rows = [[''id_video'' \<mapsto> ''v1'', ''c1_description'' \<mapsto> ''Hand over mouth'']]\<rparr>
         (fresh (DataFrame (schema_columns ''command'')))"
  let ?v = "''Mute the microphone''"
  have run: "fst ?run = None \<and>
             map (\<lambda>r. r ''c1_command'') (rows (df (snd ?run))) = [Some ?v]"
    by code_simp
  define R where "R = snd ?run"
  have cells: "map (\<lambda>r. r ''c1_command'') (rows (df R)) = [Some ?v]"
    unfolding R_def using run by (rule conjunct2)
  then obtain row' where row': "row' \<in> set (rows (df R))"
      and cell: "row' ''c1_command'' = Some ?v"
    by (cases "rows (df R)") auto
  have no_rows: "rows (df (fresh (DataFrame (schema_columns ''command'')))) = []"
    by (simp add: fresh_def DataFrame_def)
  have "?run = (fst ?run, snd ?run)"
    by (rule prod.collapse [symmetric])
  note all = stored_commands_shaped [OF this, folded R_def, unfolded no_rows]
  have ne: "''c1_command'' \<noteq> ''id_video''"
    by simp
  have none: "\<not> (\<exists>row \<in> set []. (row :: row) ''c1_command'' = Some ?v)"
    by simp
  from all [rule_format, OF row' ne cell] none
  have "?v \<noteq> [] \<longrightarrow> \<not> is_space (hd ?v) \<and> \<not> is_space (last ?v) \<and> is_upper (hd ?v)"
    by blast
  moreover have "?v \<noteq> []"
    by simp
  ultimately have "is_upper (hd ?v)" and "\<not> is_space (last ?v)"
    by blast+
  with run show ?thesis
    by blast
qed

section \<open>Properties of load and save\<close>

lemma parse_field_empty: "parse_field [] = None"
  by (simp add: parse_field_def na_values_def)

lemma read_row_written:
  "read_row cols (map (\<lambda>c. case r c of None \<Rightarrow> [] | Some v \<Rightarrow> v) cols) =
     (\<lambda>c. if c \<in> set cols then (case r c of None \<Rightarrow> None | Some v \<Rightarrow> parse_field v) else None)"
  by (auto simp: read_row_def map_of_zip_map parse_field_empty fun_eq_iff split: option.splits)

lemma read_csv_to_csv:
  assumes "columns t \<noteq> []" and "distinct (columns t)" and "[] \<notin> set (columns t)"
  shows "read_csv typed (to_csv t) = (if retyped typed (reread t) then Unmodelled else Frame (reread t))"
proof -
  have "\<not> list_ex (\<lambda>flds. length (header (to_csv t)) < length flds) (records (to_csv t))"
    by (simp add: to_csv_def list_ex_iff)
  moreover have "\<lparr>columns = header (to_csv t),
                  rows = map (read_row (header (to_csv t))) (records (to_csv t))\<rparr> = reread t"
    by (simp add: to_csv_def reread_def read_row_written comp_def)
  moreover have "header (to_csv t) = columns t"
    by (simp add: to_csv_def)
  ultimately show ?thesis
    using assms by (simp add: read_csv_def Let_def)
qed

lemma load_save:
  "load typed (save t p files) p cols = read_csv typed (to_csv t)"
  by (simp add: load_def save_def)

lemma present_fields_reread:
  assumes "\<forall>r \<in> set (rows t). \<forall>c \<in> set (columns t). \<forall>v. r c = Some v \<longrightarrow> v \<notin> set na_values"
    and "c \<in> set (columns t)"
  shows "present_fields (reread t) c = present_fields t c"
proof -
  have "(case (if c \<in> set (columns t)
               then (case r c of None \<Rightarrow> None | Some v \<Rightarrow> parse_field v) else None) of
           None \<Rightarrow> [] | Some v \<Rightarrow> [v])
        = (case r c of None \<Rightarrow> [] | Some v \<Rightarrow> [v])" if "r \<in> set (rows t)" for r
    using that assms by (auto simp: parse_field_def split: option.splits)
  then show ?thesis
    by (simp add: present_fields_def reread_def comp_def cong: map_cong)
qed

lemma retyped_reread:
  assumes "\<forall>r \<in> set (rows t). \<forall>c \<in> set (columns t). \<forall>v. r c = Some v \<longrightarrow> v \<notin> set na_values"
  shows "retyped typed (reread t) = retyped typed t"
proof -
  have "columns (reread t) = columns t"
    by (simp add: reread_def)
  then show ?thesis
    using present_fields_reread [OF assms]
    by (simp add: retyped_def list_ex_iff)
qed

text \<open>
  Claim C7, amended. For a table with at least one column, distinct non-empty labels,
  no text cell that the reader takes for a missing value (the empty text, \<open>NA\<close>,
  \<open>NaN\<close>, \<open>None\<close>, \<open>null\<close> and the others of \<open>na_values\<close>) and no column the
  reader would give a numeric or boolean dtype, loading what was saved gives a table
  with the same columns, as many rows, and in every row the same cell, NaN or text,
  under every column; so the identifiers are the same as well.
\<close>

theorem load_save_round_trip:
  assumes "columns t \<noteq> []" and "distinct (columns t)" and "[] \<notin> set (columns t)"
    and cells: "\<forall>r \<in> set (rows t). \<forall>c \<in> set (columns t). \<forall>v.
                 r c = Some v \<longrightarrow> v \<notin> set na_values"
    and "\<not> retyped typed t"
  shows "\<exists>t'. load typed (save t p files) p cols = Frame t' \<and>
           columns t' = columns t \<and> length (rows t') = length (rows t) \<and>
           (\<forall>i < length (rows t). \<forall>c \<in> set (columns t). (rows t' ! i) c = (rows t ! i) c)"
proof -
  have "load typed (save t p files) p cols = Frame (reread t)"
    using assms(1-3,5) by (simp add: load_save read_csv_to_csv retyped_reread [OF cells])
  moreover have "(rows (reread t) ! i) c = (rows t ! i) c"
    if "i < length (rows t)" and "c \<in> set (columns t)" for i c
  proof -
    have "rows t ! i \<in> set (rows t)"
      using that(1) by (rule nth_mem)
    with cells that(2) have "\<forall>v. (rows t ! i) c = Some v \<longrightarrow> v \<notin> set na_values"
      by blast
    then show ?thesis
      using that by (auto simp: reread_def parse_field_def split: option.splits)
  qed
  ultimately show ?thesis
    by (auto simp: reread_def)
qed

text \<open>
  Claim C7 as stated fails on a present cell that holds the empty text, which the command
  script stores when the answer of the model has no letter: it is written as the empty
  field and read back as NaN.
\<close>

theorem load_save_counterexample:
  "hd (rows \<lparr>columns = [''id_video'', ''c1_command''],
                rows = [[''id_video'' \<mapsto> ''v1'', ''c1_command'' \<mapsto> []]]\<rparr>) ''c1_command''
     = Some [] \<and>
   load (\<lambda>fs. False)
     (save \<lparr>columns = [''id_video'', ''c1_command''],
            rows = [[''id_video'' \<mapsto> ''v1'', ''c1_command'' \<mapsto> []]]\<rparr> ''p.csv'' Map.empty)
     ''p.csv'' (schema_columns ''command'')
     = Frame \<lparr>columns = [''id_video'', ''c1_command''], rows = [[''id_video'' \<mapsto> ''v1'']]\<rparr>"
  by (auto simp: load_save read_csv_to_csv reread_def retyped_def parse_field_def na_values_def
        fun_eq_iff)

text \<open>The table of the end-to-end example of the specification.\<close>

theorem load_save_round_trip_witness:
  "columns \<lparr>columns = [''id_video'', ''c1_description''],
            rows = [[''id_video'' \<mapsto> ''v1'',
                     ''c1_description'' \<mapsto> ''Closed fist moves up.'']]\<rparr> \<noteq> [] \<and>
   ''v1'' \<notin> set na_values \<and> ''Closed fist moves up.'' \<notin> set na_values \<and>
   (\<exists>t'. load (\<lambda>fs. False)
           (save \<lparr>columns = [''id_video'', ''c1_description''],
                  rows = [[''id_video'' \<mapsto> ''v1'',
                           ''c1_description'' \<mapsto> ''Closed fist moves up.'']]\<rparr>
              ''p.csv'' Map.empty)
           ''p.csv'' (schema_columns ''description'') = Frame t' \<and>
         columns t' = [''id_video'', ''c1_description''] \<and>
         length (rows t') = 1 \<and>
         (rows t' ! 0) ''id_video'' = Some ''v1'' \<and>
         (rows t' ! 0) ''c1_description'' = Some ''Closed fist moves up.'')"
proof -
  let ?t = "\<lparr>columns = [''id_video'', ''c1_description''],
            rows = [[''id_video'' \<mapsto> ''v1'',
                     ''c1_description'' \<mapsto> ''Closed fist moves up.'']]\<rparr>"
  have na: "''v1'' \<notin> set na_values" "''Closed fist moves up.'' \<notin> set na_values"
    by (simp_all add: na_values_def)
  have h: "columns ?t \<noteq> []" "distinct (columns ?t)" "[] \<notin> set (columns ?t)"
    "\<forall>r \<in> set (rows ?t). \<forall>c \<in> set (columns ?t). \<forall>v.
        r c = Some v \<longrightarrow> v \<notin> set na_values"
    "\<not> retyped (\<lambda>fs. False) ?t"
    using na by (simp_all add: retyped_def)
  from load_save_round_trip [OF h, of "''p.csv''" Map.empty "schema_columns ''description''"]
  obtain t' where
    "load (\<lambda>fs. False) (save ?t ''p.csv'' Map.empty) ''p.csv'' (schema_columns ''description'')
       = Frame t'"
    "columns t' = columns ?t" "length (rows t') = length (rows ?t)"
    "\<forall>i < length (rows ?t). \<forall>c \<in> set (columns ?t). (rows t' ! i) c = (rows ?t ! i) c"
    by blast
  then show ?thesis
    using na h(1) by (intro conjI exI [of _ t']) simp_all
qed

section \<open>Properties of the annotation loop\<close>

lemma keeps_refl: "keeps_filled rs rs"
  by (simp add: keeps_filled_def)

lemma keeps_trans: "keeps_filled a b \<Longrightarrow> keeps_filled b c \<Longrightarrow> keeps_filled a c"
  by (auto simp: keeps_filled_def)

lemma keeps_append: "keeps_filled rs (rs @ extra)"
  by (simp add: keeps_filled_def nth_append)

lemma keeps_ensure_row:
  "ensure_row d key = Inr d1 \<Longrightarrow> keeps_filled (rows d) (rows d1)"
  by (auto simp: ensure_row_def pd_concat_def keeps_append keeps_refl split: sum.splits if_splits)

lemma is_absent_True:
  assumes "is_absent d key col = Inr True" and "r \<in> set (rows d)" and "py_eq (r ''id_video'') key"
  shows "r col = None"
  using assms
  by (auto simp: is_absent_def loc_def list_all_iff split: sum.splits if_splits)

lemma keeps_set_cell:
  assumes "set_cell d key col v = Inr d2" and "is_absent d key col = Inr True"
  shows "keeps_filled (rows d) (rows d2)"
proof -
  from assms(1) have rows:
    "rows d2 = map (\<lambda>r. if py_eq (r ''id_video'') key then r(col \<mapsto> v) else r) (rows d)"
    by (auto simp: set_cell_def split: sum.splits if_splits)
  show ?thesis
    unfolding keeps_filled_def rows
  proof (intro conjI allI impI)
    show "length (rows d) \<le> length (map (\<lambda>r. if py_eq (r ''id_video'') key then r(col \<mapsto> v) else r) (rows d))"
      by simp
  next
    fix i c w
    assume i: "i < length (rows d)" and w: "(rows d ! i) c = Some w"
    have "c \<noteq> col" if "py_eq ((rows d ! i) ''id_video'') key"
      using is_absent_True [OF assms(2) nth_mem [OF i] that] w by auto
    with i w show
      "(map (\<lambda>r. if py_eq (r ''id_video'') key then r(col \<mapsto> v) else r) (rows d) ! i) c = Some w"
      by simp
  qed
qed

lemma keeps_process_folder:
  assumes "process_folder prepare p env gpt fo s = (r, s')"
  shows "keeps_filled (rows (df s)) (rows (df s'))"
proof (cases "filenames fo = []")
  case True
  with assms show ?thesis
    by (simp add: process_folder_def keeps_refl)
next
  case files: False
  show ?thesis
  proof (cases "ensure_row (df s) (Some (id_video fo))")
    case (Inl e)
    with assms files show ?thesis
      by (simp add: process_folder_def keeps_refl)
  next
    case (Inr d1)
    note k1 = keeps_ensure_row [OF Inr]
    let ?col = "id_description fo @ ''_description''"
    show ?thesis
    proof (cases "is_absent d1 (Some (id_video fo)) ?col = Inr True")
      case False
      with assms files Inr have "df s' = d1"
        by (auto simp: process_folder_def Let_def split: sum.splits bool.splits)
      with k1 show ?thesis
        by simp
    next
      case True
      with assms files Inr have
        "df s' = d1 \<or> (\<exists>v. set_cell d1 (Some (id_video fo)) ?col v = Inr (df s'))"
        by (auto simp: process_folder_def Let_def split: sum.splits exn.splits)
      then have "keeps_filled (rows d1) (rows (df s'))"
        using keeps_set_cell [OF _ True] keeps_refl by auto
      with k1 show ?thesis
        by (rule keeps_trans)
    qed
  qed
qed

lemma keeps_run_folders:
  "run_folders prepare p env gpt fos s = (r, s') \<Longrightarrow> keeps_filled (rows (df s)) (rows (df s'))"
proof (induction fos arbitrary: s)
  case Nil
  then show ?case
    by (simp add: keeps_refl)
next
  case (Cons fo fos)
  obtain r1 s1 where step: "process_folder prepare p env gpt fo s = (r1, s1)"
    by (cases "process_folder prepare p env gpt fo s")
  note one = keeps_process_folder [OF step]
  show ?case
  proof (cases r1)
    case None
    with Cons.prems step have "run_folders prepare p env gpt fos s1 = (r, s')"
      by simp
    from one Cons.IH [OF this] show ?thesis
      by (rule keeps_trans)
  next
    case (Some e)
    with Cons.prems step have "s' = s1"
      by simp
    with one show ?thesis
      by simp
  qed
qed

lemma mset_sort_by_key: "sort_by_key d = Inr d' \<Longrightarrow> mset (rows d') = mset (rows d)"
  by (auto simp: sort_by_key_def split: sum.splits)

lemma mset_finish: "finish p s = (r, s') \<Longrightarrow> mset (rows (df s')) = mset (rows (df s))"
  by (auto simp: finish_def mset_sort_by_key split: sum.splits)

lemma guard_skips:
  assumes row: "row \<in> set (rows (df s))" and key: "row ''id_video'' = Some (id_video fo)"
    and cell: "row (id_description fo @ ''_description'') \<noteq> None"
  shows "df (snd (process_folder prepare p env gpt fo s)) = df s"
    and "fs (snd (process_folder prepare p env gpt fo s)) = fs s"
    and "calls (snd (process_folder prepare p env gpt fo s)) = calls s"
proof -
  let ?col = "id_description fo @ ''_description''"
  have same: "ensure_row (df s) (Some (id_video fo)) = Inr d1 \<Longrightarrow> d1 = df s" for d1
    using row key
    by (auto simp: ensure_row_def getitem_def list_ex_iff py_eq_def split: if_splits)
  have "is_absent (df s) (Some (id_video fo)) ?col \<noteq> Inr True"
    using is_absent_True [of "df s" "Some (id_video fo)" ?col row] row key cell
    by (auto simp: py_eq_def)
  moreover obtain r s' where step: "process_folder prepare p env gpt fo s = (r, s')"
    by (cases "process_folder prepare p env gpt fo s")
  ultimately have "df s' = df s \<and> fs s' = fs s \<and> calls s' = calls s"
    using same
    by (auto simp: process_folder_def Let_def split: if_splits sum.splits bool.splits)
  then show "df (snd (process_folder prepare p env gpt fo s)) = df s"
    and "fs (snd (process_folder prepare p env gpt fo s)) = fs s"
    and "calls (snd (process_folder prepare p env gpt fo s)) = calls s"
    by (simp_all add: step)
qed

text \<open>
  Claim C1. Whatever the source answers, a run of the annotator, from the loop over the
  folders to the final sort, keeps every text cell of the table it starts with: the
  rows it ends with are, up to the order the sort gives them, the rows it started with,
  each with all its text cells unchanged, followed by the rows it appended. And the guard
  is what protects them: for a folder whose identifier has a row with text in its column,
  the loop body leaves the table and the file system as they are and makes no call of
  the source.
\<close>

theorem filled_cells_kept:
  "(annotate prepare file_path env gpt fos s = (r, s') \<longrightarrow>
      (\<exists>p. mset p = mset (rows (df s')) \<and> length (rows (df s)) \<le> length p \<and>
           (\<forall>i < length (rows (df s)). \<forall>c v.
              (rows (df s) ! i) c = Some v \<longrightarrow> (p ! i) c = Some v))) \<and>
   (row \<in> set (rows (df s)) \<and> row ''id_video'' = Some (id_video fo) \<and>
    row (id_description fo @ ''_description'') \<noteq> None \<longrightarrow>
      df (snd (process_folder prepare file_path env gpt fo s)) = df s \<and>
      fs (snd (process_folder prepare file_path env gpt fo s)) = fs s \<and>
      calls (snd (process_folder prepare file_path env gpt fo s)) = calls s)"
proof (rule conjI; rule impI)
  assume run: "annotate prepare file_path env gpt fos s = (r, s')"
  obtain r1 s1 where loop: "run_folders prepare file_path env gpt fos s = (r1, s1)"
    by (cases "run_folders prepare file_path env gpt fos s")
  have "mset (rows (df s1)) = mset (rows (df s'))"
  proof (cases r1)
    case None
    with run loop have "finish file_path s1 = (r, s')"
      by (simp add: annotate_def)
    then show ?thesis
      by (simp add: mset_finish)
  next
    case (Some e)
    with run loop show ?thesis
      by (simp add: annotate_def)
  qed
  moreover have "keeps_filled (rows (df s)) (rows (df s1))"
    by (rule keeps_run_folders [OF loop])
  ultimately show "\<exists>p. mset p = mset (rows (df s')) \<and> length (rows (df s)) \<le> length p \<and>
           (\<forall>i < length (rows (df s)). \<forall>c v.
              (rows (df s) ! i) c = Some v \<longrightarrow> (p ! i) c = Some v)"
    unfolding keeps_filled_def by (intro exI [of _ "rows (df s1)"]) simp
next
  assume "row \<in> set (rows (df s)) \<and> row ''id_video'' = Some (id_video fo) \<and>
          row (id_description fo @ ''_description'') \<noteq> None"
  then show "df (snd (process_folder prepare file_path env gpt fo s)) = df s \<and>
      fs (snd (process_folder prepare file_path env gpt fo s)) = fs s \<and>
      calls (snd (process_folder prepare file_path env gpt fo s)) = calls s"
    using guard_skips [of row s fo prepare file_path env gpt] by blast
qed

text \<open>
  A table whose cell \<open>v1\<close>, \<open>c1_description\<close> is filled, one folder for that cell, and a
  source that would answer something else.
\<close>

theorem filled_cells_kept_witness:
  "(\<exists>p. mset p =
          mset (rows (df (snd (annotate sample ''p.csv'' example_env (\<lambda>n c x. Inr ''Open hand.'')
                  [\<lparr>id_video = ''v1'', id_description = ''c1'', filenames = [''a.jpg'']\<rparr>]
                  (fresh \<lparr>columns = [''id_video'', ''c1_description''],
                          rows = [[''id_video'' \<mapsto> ''v1'',
                                   ''c1_description'' \<mapsto> ''Closed fist moves up.'']]\<rparr>))))) \<and>
        (p ! 0) ''c1_description'' = Some ''Closed fist moves up.'') \<and>
   calls (snd (process_folder sample ''p.csv'' example_env (\<lambda>n c x. Inr ''Open hand.'')
            \<lparr>id_video = ''v1'', id_description = ''c1'', filenames = [''a.jpg'']\<rparr>
            (fresh \<lparr>columns = [''id_video'', ''c1_description''],
                    rows = [[''id_video'' \<mapsto> ''v1'',
                             ''c1_description'' \<mapsto> ''Closed fist moves up.'']]\<rparr>))) = 0"
proof -
  let ?gpt = "\<lambda>(n :: nat) (c :: client) (x :: string list). (Inr ''Open hand.'' :: exn + string)"
  let ?fo = "\<lparr>id_video = ''v1'', id_description = ''c1'', filenames = [''a.jpg'']\<rparr>"
  let ?row = "[''id_video'' \<mapsto> ''v1'', ''c1_description'' \<mapsto> ''Closed fist moves up.'']"
  let ?s = "fresh \<lparr>columns = [''id_video'', ''c1_description''], rows = [?row]\<rparr>"
  let ?run = "annotate sample ''p.csv'' example_env ?gpt [?fo] ?s"
  note kept = filled_cells_kept [of sample "''p.csv''" example_env ?gpt "[?fo]" ?s
      "fst ?run" "snd ?run" ?row ?fo]
  have rows: "rows (df ?s) = [?row]"
    by (simp add: fresh_def)
  have "?run = (fst ?run, snd ?run)"
    by (rule prod.collapse [symmetric])
  with kept obtain p where p: "mset p = mset (rows (df (snd ?run)))"
    and all: "\<forall>i < length (rows (df ?s)). \<forall>c v.
                (rows (df ?s) ! i) c = Some v \<longrightarrow> (p ! i) c = Some v"
    by blast
  have "(p ! 0) ''c1_description'' = Some ''Closed fist moves up.''"
    using all [unfolded rows, rule_format, of 0 "''c1_description''" "''Closed fist moves up.''"]
    by simp
  with p have first: "\<exists>p. mset p = mset (rows (df (snd ?run))) \<and>
      (p ! 0) ''c1_description'' = Some ''Closed fist moves up.''"
    by blast
  have "?row \<in> set (rows (df ?s)) \<and> ?row ''id_video'' = Some (id_video ?fo) \<and>
        ?row (id_description ?fo @ ''_description'') \<noteq> None"
    by (simp add: rows)
  with kept have "calls (snd (process_folder sample ''p.csv'' example_env ?gpt ?fo ?s)) = calls ?s"
    by blast
  then have "calls (snd (process_folder sample ''p.csv'' example_env ?gpt ?fo ?s)) = 0"
    by (simp add: fresh_def)
  with first show ?thesis
    by (rule conjI)
qed

section \<open>The loop body in normal form, and runs without credentials\<close>

lemma col_not_id: "idd @ ''_description'' \<noteq> ''id_video''"
proof
  assume "idd @ ''_description'' = ''id_video''"
  then have "length (idd @ ''_description'') = length ''id_video''"
    by (rule arg_cong)
  then show False
    by simp
qed

lemma ensure_row_Some:
  "ensure_row d (Some key) =
     (if ''id_video'' \<in> set (columns d)
      then Inr (if Some key \<in> set (ids d) then d else d\<lparr>rows := rows d @ [blank_row key]\<rparr>)
      else Inl (KeyError ''id_video''))"
proof (cases "''id_video'' \<in> set (columns d)")
  case True
  have "rows (id_frame (Some key)) = [blank_row key]"
    by (simp add: id_frame_def blank_row_def)
  with True show ?thesis
    by (simp add: ensure_row_eq)
next
  case False
  then show ?thesis
    by (simp add: ensure_row_def getitem_def)
qed

lemma is_absent_Some:
  "is_absent d (Some key) col =
     (if ''id_video'' \<in> set (columns d)
      then (if col \<in> set (columns d) then Inr (\<not> filled d key col) else Inl (KeyError col))
      else Inl (KeyError ''id_video''))"
  by (auto simp: is_absent_def loc_def getitem_def filled_def py_eq_def list_all_iff)

lemma set_cell_Some:
  "''id_video'' \<in> set (columns d) \<Longrightarrow> col \<in> set (columns d) \<Longrightarrow>
   set_cell d (Some key) col v =
     Inr \<lparr>columns = columns d,
          rows = map (\<lambda>r. if r ''id_video'' = Some key then r(col \<mapsto> v) else r) (rows d)\<rparr>"
  by (simp add: set_cell_def getitem_def py_eq_def)

lemma describe_no_credentials:
  assumes "env ''AZURE_OPENAI_API_KEY'' = None \<or> env ''AZURE_OPENAI_ENDPOINT'' = None"
  shows "\<exists>m. describe_hand_gesture env gpt n x = Inl (ValueError m)"
  using assms
  by (auto simp: describe_hand_gesture_def get_azure_openai_client_def split: option.splits)

lemma filled_append_blank:
  "col \<noteq> ''id_video'' \<Longrightarrow>
   filled (d\<lparr>rows := rows d @ map blank_row ks\<rparr>) key col = filled d key col"
  by (auto simp: filled_def blank_row_def)

lemma filled_append_one:
  "col \<noteq> ''id_video'' \<Longrightarrow>
   filled (d\<lparr>rows := rows d @ [blank_row k]\<rparr>) key col = filled d key col"
  using filled_append_blank [of col d "[k]" key] by simp

lemma filled_rows_cong: "rows d = rows d' \<Longrightarrow> filled d key col = filled d' key col"
  by (simp add: filled_def)

lemma process_folder_no_files:
  "filenames fo = [] \<Longrightarrow> process_folder prepare p env gpt fo s = (None, s)"
  by (simp add: process_folder_def)

lemma process_folder_no_id:
  "filenames fo \<noteq> [] \<Longrightarrow> ''id_video'' \<notin> set (columns (df s)) \<Longrightarrow>
   process_folder prepare p env gpt fo s = (Some (KeyError ''id_video''), s)"
  by (simp add: process_folder_def ensure_row_Some)

lemma process_folder_ready:
  assumes "filenames fo \<noteq> []" and "''id_video'' \<in> set (columns (df s))"
    and d1: "d1 = (if Some (id_video fo) \<in> set (ids (df s)) then df s
                   else (df s)\<lparr>rows := rows (df s) @ [blank_row (id_video fo)]\<rparr>)"
    and s1: "s1 = s\<lparr>df := d1,
                       out := out s @ [''Processing '' @ id_video fo @ '' / description ''
                                        @ id_description fo @ ''...'']\<rparr>"
    and col: "col = id_description fo @ ''_description''"
  shows "process_folder prepare p env gpt fo s =
     (if col \<notin> set (columns (df s)) then (Some (KeyError col), s1)
      else if filled d1 (id_video fo) col then (None, s1)
      else
        (case describe_hand_gesture env gpt (calls s) (prepare (filenames fo)) of
           Inl (RuntimeError m) \<Rightarrow>
             (None, s1\<lparr>calls := Suc (calls s),
                        out := out s1 @ [''Exception Error: '' @ m @ ''.'']\<rparr>)
         | Inl e \<Rightarrow> (Some e, s1\<lparr>calls := Suc (calls s)\<rparr>)
         | Inr v \<Rightarrow>
             (None, s1\<lparr>calls := Suc (calls s),
                        df := d1\<lparr>rows := map (\<lambda>r. if r ''id_video'' = Some (id_video fo)
                                                  then r(col \<mapsto> v) else r) (rows d1)\<rparr>,
                        fs := save (d1\<lparr>rows := map (\<lambda>r. if r ''id_video'' = Some (id_video fo)
                                                  then r(col \<mapsto> v) else r) (rows d1)\<rparr>)
                                p (fs s)\<rparr>)))"
proof -
  have cols: "columns d1 = columns (df s)"
    by (simp add: d1)
  have ens: "ensure_row (df s) (Some (id_video fo)) = Inr d1"
    using assms(2) by (simp add: ensure_row_Some d1)
  have set: "set_cell d1 (Some (id_video fo)) c v =
      Inr (d1\<lparr>rows := map (\<lambda>r. if r ''id_video'' = Some (id_video fo) then r(c \<mapsto> v) else r)
                           (rows d1)\<rparr>)"
    if "c \<in> set (columns (df s))" for c v
    using that assms(2) by (simp add: set_cell_Some cols)
  show ?thesis
    using assms(1,2) unfolding s1 col
    by (simp add: process_folder_def ens Let_def is_absent_Some set cols
          split: sum.splits exn.splits)
qed

lemma no_credentials_step:
  assumes nc: "env ''AZURE_OPENAI_API_KEY'' = None \<or> env ''AZURE_OPENAI_ENDPOINT'' = None"
    and step: "process_folder prepare p env gpt fo s = (r, s')"
  shows "fs s' = fs s \<and> columns (df s') = columns (df s) \<and>
         (rows (df s') = rows (df s) \<or>
          rows (df s') = rows (df s) @ [blank_row (id_video fo)]) \<and>
         (r = None \<and> calls s' = calls s \<and>
            (filenames fo \<noteq> [] \<longrightarrow>
               filled (df s) (id_video fo) (id_description fo @ ''_description''))
          \<or> (\<exists>m. r = Some (ValueError m)) \<and> calls s' = Suc (calls s)
          \<or> (\<exists>k. r = Some (KeyError k)) \<and> calls s' = calls s)"
proof -
  let ?col = "id_description fo @ ''_description''"
  define d1 where "d1 = (if Some (id_video fo) \<in> set (ids (df s)) then df s
                         else (df s)\<lparr>rows := rows (df s) @ [blank_row (id_video fo)]\<rparr>)"
  define s1 where "s1 = s\<lparr>df := d1,
                       out := out s @ [''Processing '' @ id_video fo @ '' / description ''
                                        @ id_description fo @ ''...'']\<rparr>"
  obtain m where m:
    "describe_hand_gesture env gpt (calls s) (prepare (filenames fo)) = Inl (ValueError m)"
    using describe_no_credentials [OF nc, of gpt "calls s" "prepare (filenames fo)"] by blast
  have fill: "filled d1 (id_video fo) ?col = filled (df s) (id_video fo) ?col"
    by (simp add: d1_def filled_append_one [OF col_not_id])
  have s1: "fs s1 = fs s" "columns (df s1) = columns (df s)" "calls s1 = calls s"
    "rows (df s1) = rows (df s) \<or> rows (df s1) = rows (df s) @ [blank_row (id_video fo)]"
    by (simp_all add: s1_def d1_def)
  consider "filenames fo = []"
    | "filenames fo \<noteq> []" "''id_video'' \<notin> set (columns (df s))"
    | "filenames fo \<noteq> []" "''id_video'' \<in> set (columns (df s))"
    by blast
  then show ?thesis
  proof cases
    case 1
    with step show ?thesis
      by (simp add: process_folder_no_files)
  next
    case 2
    with step show ?thesis
      by (auto simp: process_folder_no_id)
  next
    case 3
    note eq = process_folder_ready [OF 3 d1_def s1_def refl, of prepare p env gpt]
    consider "?col \<notin> set (columns (df s))"
      | "?col \<in> set (columns (df s))" "filled d1 (id_video fo) ?col"
      | "?col \<in> set (columns (df s))" "\<not> filled d1 (id_video fo) ?col"
      by blast
    then show ?thesis
    proof cases
      case 1
      with step eq have "r = Some (KeyError ?col)" and "s' = s1"
        by simp_all
      with s1 show ?thesis
        by simp
    next
      case 2
      with step eq have "r = None" and "s' = s1"
        by simp_all
      with s1 2 fill show ?thesis
        by simp
    next
      case 3
      with step eq m have "r = Some (ValueError m)" and "s' = s1\<lparr>calls := Suc (calls s)\<rparr>"
        by simp_all
      with s1 show ?thesis
        by simp
    qed
  qed
qed

text \<open>
  Whatever the columns of the table: without credentials a run of the loop writes no
  file and no cell, it only appends blank rows, and it ends in one of three ways.
\<close>

lemma no_credentials_general:
  assumes nc: "env ''AZURE_OPENAI_API_KEY'' = None \<or> env ''AZURE_OPENAI_ENDPOINT'' = None"
    and run: "run_folders prepare p env gpt fos s = (r, s')"
  shows "fs s' = fs s \<and> columns (df s') = columns (df s) \<and>
         (\<exists>ks. rows (df s') = rows (df s) @ map blank_row ks) \<and>
         (r = None \<and> calls s' = calls s \<and>
            (\<forall>fo \<in> set fos. filenames fo \<noteq> [] \<longrightarrow>
               filled (df s) (id_video fo) (id_description fo @ ''_description''))
          \<or> (\<exists>m. r = Some (ValueError m)) \<and> calls s' = Suc (calls s)
          \<or> (\<exists>k. r = Some (KeyError k)) \<and> calls s' = calls s)"
  using run
proof (induction fos arbitrary: s)
  case Nil
  then have "s' = s" and "r = None"
    by simp_all
  then show ?case
    by (auto intro: exI [of _ "[]"])
next
  case (Cons fo fos)
  obtain r1 s1 where step: "process_folder prepare p env gpt fo s = (r1, s1)"
    by (cases "process_folder prepare p env gpt fo s")
  note one = no_credentials_step [OF nc step]
  from one have "rows (df s1) = rows (df s) @ map blank_row []
                 \<or> rows (df s1) = rows (df s) @ map blank_row [id_video fo]"
    by simp
  then obtain k1 where k1: "rows (df s1) = rows (df s) @ map blank_row k1"
    by blast
  from one have same: "fs s1 = fs s" "columns (df s1) = columns (df s)"
    by simp_all
  show ?case
  proof (cases r1)
    case (Some e)
    with Cons.prems step have "s' = s1" and "r = r1"
      by simp_all
    with one k1 Some show ?thesis
      by auto
  next
    case None
    with Cons.prems step have rest: "run_folders prepare p env gpt fos s1 = (r, s')"
      by simp
    note ih = Cons.IH [OF rest]
    from ih obtain k2 where k2: "rows (df s') = rows (df s1) @ map blank_row k2"
      by blast
    have appended: "\<exists>ks. rows (df s') = rows (df s) @ map blank_row ks"
      using k1 k2 by (intro exI [of _ "k1 @ k2"]) simp
    have earlier: "filled (df s) key (idd @ ''_description'')"
      if "filled (df s1) key (idd @ ''_description'')" for key idd
    proof -
      have "filled (df s1) key (idd @ ''_description'')
            = filled ((df s)\<lparr>rows := rows (df s) @ map blank_row k1\<rparr>) key (idd @ ''_description'')"
        by (rule filled_rows_cong) (simp add: k1)
      with that show ?thesis
        by (simp add: filled_append_blank [OF col_not_id])
    qed
    from one None have here: "calls s1 = calls s"
      "filenames fo \<noteq> [] \<longrightarrow> filled (df s) (id_video fo) (id_description fo @ ''_description'')"
      by auto
    have ends: "fs s' = fs s \<and> columns (df s') = columns (df s)"
      using ih same by simp
    from ih have "(r = None \<and> calls s' = calls s1 \<and>
            (\<forall>fo \<in> set fos. filenames fo \<noteq> [] \<longrightarrow>
               filled (df s1) (id_video fo) (id_description fo @ ''_description''))
          \<or> (\<exists>m. r = Some (ValueError m)) \<and> calls s' = Suc (calls s1)
          \<or> (\<exists>k. r = Some (KeyError k)) \<and> calls s' = calls s1)"
      by blast
    with here earlier have "(r = None \<and> calls s' = calls s \<and>
            (\<forall>fo \<in> set (fo # fos). filenames fo \<noteq> [] \<longrightarrow>
               filled (df s) (id_video fo) (id_description fo @ ''_description''))
          \<or> (\<exists>m. r = Some (ValueError m)) \<and> calls s' = Suc (calls s)
          \<or> (\<exists>k. r = Some (KeyError k)) \<and> calls s' = calls s)"
      by auto
    with ends appended show ?thesis
      by blast
  qed
qed

text \<open>
  On a table that has the identifier column and the column of the folder, the loop body
  without credentials is determined: a folder without files is passed over in silence;
  any other folder is announced and gets its row; and the call of the source, made when
  the cell is not filled, raises the \<open>ValueError\<close> of the client.
\<close>

lemma ensure_row_with_row:
  "''id_video'' \<in> set (columns d) \<Longrightarrow> ensure_row d (Some key) = Inr (with_row d key)"
  by (simp add: ensure_row_Some with_row_def)

lemma columns_with_row: "columns (with_row d key) = columns d"
  by (simp add: with_row_def)

lemma filled_with_row:
  "filled (with_row d k) key (idd @ ''_description'') = filled d key (idd @ ''_description'')"
  by (simp add: with_row_def filled_append_one [OF col_not_id])

lemma needs_work_with_row: "needs_work (with_row d k) = needs_work d"
  by (simp add: needs_work_def fun_eq_iff filled_with_row)

lemma reached_with_row: "reached (with_row d k) fos = reached d fos"
  by (simp add: reached_def needs_work_with_row)

lemma reached_Cons:
  "reached d (fo # fos) = (if needs_work d fo then [fo] else fo # reached d fos)"
  by (simp add: reached_def)

lemma credentials_raise:
  assumes "env ''AZURE_OPENAI_API_KEY'' = None \<or> env ''AZURE_OPENAI_ENDPOINT'' = None"
  shows "\<exists>m. get_azure_openai_client env = Inl (ValueError m)"
proof (cases "env ''AZURE_OPENAI_API_KEY''")
  case None
  then show ?thesis
    by (simp add: get_azure_openai_client_def)
next
  case (Some k)
  with assms show ?thesis
    by (simp add: get_azure_openai_client_def)
qed

lemma describe_raises:
  "get_azure_openai_client env = Inl e \<Longrightarrow> describe_hand_gesture env gpt n x = Inl e"
  by (simp add: describe_hand_gesture_def)

lemma no_credentials_step_exact:
  assumes client: "get_azure_openai_client env = Inl (ValueError m)"
    and idc: "''id_video'' \<in> set (columns (df s))"
    and colc: "id_description fo @ ''_description'' \<in> set (columns (df s))"
  shows "process_folder prepare p env gpt fo s =
     (if filenames fo = [] then (None, s)
      else if needs_work (df s) fo
      then (Some (ValueError m),
            s\<lparr>df := with_row (df s) (id_video fo), out := out s @ [announcement fo],
               calls := Suc (calls s)\<rparr>)
      else (None, s\<lparr>df := with_row (df s) (id_video fo), out := out s @ [announcement fo]\<rparr>))"
proof (cases "filenames fo = []")
  case True
  then show ?thesis
    by (simp add: process_folder_no_files)
next
  case False
  note eq = process_folder_ready [OF False idc with_row_def refl refl, of prepare p env gpt,
      unfolded describe_raises [OF client]]
  show ?thesis
    using False colc
    by (simp add: eq needs_work_def filled_with_row announcement_def)
qed

lemma run_folders_no_client:
  assumes client: "get_azure_openai_client env = Inl (ValueError m)"
  shows "''id_video'' \<in> set (columns (df s)) \<Longrightarrow>
     \<forall>fo \<in> set fos. id_description fo @ ''_description'' \<in> set (columns (df s)) \<Longrightarrow>
     run_folders prepare p env gpt fos s =
       ((if \<exists>fo \<in> set fos. needs_work (df s) fo then Some (ValueError m) else None),
        s\<lparr>df := foldl with_row (df s)
                   (map id_video (filter (\<lambda>fo. filenames fo \<noteq> []) (reached (df s) fos))),
           out := out s @ map announcement
                   (filter (\<lambda>fo. filenames fo \<noteq> []) (reached (df s) fos)),
           calls := calls s + (if \<exists>fo \<in> set fos. needs_work (df s) fo then 1 else 0)\<rparr>)"
proof (induction fos arbitrary: s)
  case Nil
  show ?case
    by (simp add: reached_def)
next
  case (Cons fo fos)
  from Cons.prems have colc: "id_description fo @ ''_description'' \<in> set (columns (df s))"
    by simp
  note step = no_credentials_step_exact [OF client Cons.prems(1) colc, of prepare p gpt]
  show ?case
  proof (cases "needs_work (df s) fo")
    case True
    then have "filenames fo \<noteq> []"
      by (simp add: needs_work_def)
    with True show ?thesis
      by (simp add: step reached_Cons)
  next
    case False
    show ?thesis
    proof (cases "filenames fo = []")
      case True
      with False Cons.prems show ?thesis
        by (simp add: step reached_Cons Cons.IH)
    next
      case files: False
      let ?s1 = "s\<lparr>df := with_row (df s) (id_video fo), out := out s @ [announcement fo]\<rparr>"
      have "''id_video'' \<in> set (columns (df ?s1))"
        and "\<forall>fo \<in> set fos. id_description fo @ ''_description'' \<in> set (columns (df ?s1))"
        using Cons.prems by (simp_all add: columns_with_row)
      note ih = Cons.IH [OF this]
      from False files show ?thesis
        by (simp add: step reached_Cons ih reached_with_row needs_work_with_row)
    qed
  qed
qed

lemma finish_raises_nothing:
  "''id_video'' \<in> set (columns (df s)) \<Longrightarrow> fst (finish p s) = None"
  by (simp add: finish_def sort_by_key_def getitem_def)

lemma columns_foldl_with_row: "columns (foldl with_row d ks) = columns d"
  by (induction ks arbitrary: d) (simp_all add: columns_with_row)

text \<open>
  Claim C4, amended. The client is built inside every call of the source, not before
  the loop. When a credential variable is missing, a run of the loop writes no file and
  no cell and leaves the columns as they are; it only appends blank rows. On a table
  that has the identifier column and the columns of the folders, the run is determined:
  the \<open>ValueError\<close> of the client is raised exactly when some folder needs work (it
  holds files and its cell is not filled), by the one call of the source made at the
  first such folder, and it ends the run there; every folder with files up to and
  including that one has been announced, and a blank row has been appended for each of
  their identifiers that the table lacked. When no folder needs work, every folder with
  files is announced, no call is made and no error is raised. The error of the loop is
  the error of the whole run: the sort and the save after the loop raise nothing.
\<close>

theorem no_credentials_run:
  assumes nc: "env ''AZURE_OPENAI_API_KEY'' = None \<or> env ''AZURE_OPENAI_ENDPOINT'' = None"
    and run: "run_folders prepare p env gpt fos s = (r, s')"
  shows "fs s' = fs s \<and> columns (df s') = columns (df s) \<and>
         (\<exists>ks. rows (df s') = rows (df s) @ map blank_row ks) \<and>
         (r = None \<and> calls s' = calls s \<and>
            (\<forall>fo \<in> set fos. filenames fo \<noteq> [] \<longrightarrow>
               filled (df s) (id_video fo) (id_description fo @ ''_description''))
          \<or> (\<exists>m. r = Some (ValueError m)) \<and> calls s' = Suc (calls s)
          \<or> (\<exists>k. r = Some (KeyError k)) \<and> calls s' = calls s) \<and>
         (''id_video'' \<in> set (columns (df s)) \<and>
          (\<forall>fo \<in> set fos. id_description fo @ ''_description'' \<in> set (columns (df s))) \<longrightarrow>
            (\<exists>m. get_azure_openai_client env = Inl (ValueError m) \<and>
                 r = (if \<exists>fo \<in> set fos. needs_work (df s) fo
                      then Some (ValueError m) else None)) \<and>
            s' = s\<lparr>df := foldl with_row (df s)
                          (map id_video
                             (filter (\<lambda>fo. filenames fo \<noteq> []) (reached (df s) fos))),
                    out := out s @ map announcement
                             (filter (\<lambda>fo. filenames fo \<noteq> []) (reached (df s) fos)),
                    calls := calls s
                             + (if \<exists>fo \<in> set fos. needs_work (df s) fo then 1 else 0)\<rparr> \<and>
            fst (annotate prepare p env gpt fos s) = r)"
proof (rule conjI [OF _ conjI [OF _ conjI [OF _ conjI]]])
  note general = no_credentials_general [OF nc run]
  from general show "fs s' = fs s"
    by (rule conjunct1)
  from general show cols: "columns (df s') = columns (df s)"
    by simp
  from general show "\<exists>ks. rows (df s') = rows (df s) @ map blank_row ks"
    by simp
  from general show "r = None \<and> calls s' = calls s \<and>
            (\<forall>fo \<in> set fos. filenames fo \<noteq> [] \<longrightarrow>
               filled (df s) (id_video fo) (id_description fo @ ''_description''))
          \<or> (\<exists>m. r = Some (ValueError m)) \<and> calls s' = Suc (calls s)
          \<or> (\<exists>k. r = Some (KeyError k)) \<and> calls s' = calls s"
    by simp
  show "''id_video'' \<in> set (columns (df s)) \<and>
          (\<forall>fo \<in> set fos. id_description fo @ ''_description'' \<in> set (columns (df s))) \<longrightarrow>
            (\<exists>m. get_azure_openai_client env = Inl (ValueError m) \<and>
                 r = (if \<exists>fo \<in> set fos. needs_work (df s) fo
                      then Some (ValueError m) else None)) \<and>
            s' = s\<lparr>df := foldl with_row (df s)
                          (map id_video
                             (filter (\<lambda>fo. filenames fo \<noteq> []) (reached (df s) fos))),
                    out := out s @ map announcement
                             (filter (\<lambda>fo. filenames fo \<noteq> []) (reached (df s) fos)),
                    calls := calls s
                             + (if \<exists>fo \<in> set fos. needs_work (df s) fo then 1 else 0)\<rparr> \<and>
            fst (annotate prepare p env gpt fos s) = r"
  proof
    assume a: "''id_video'' \<in> set (columns (df s)) \<and>
          (\<forall>fo \<in> set fos. id_description fo @ ''_description'' \<in> set (columns (df s)))"
    from credentials_raise [OF nc] obtain m where
      client: "get_azure_openai_client env = Inl (ValueError m)"
      by blast
    from a have idc: "''id_video'' \<in> set (columns (df s))"
      and colc: "\<forall>fo \<in> set fos. id_description fo @ ''_description'' \<in> set (columns (df s))"
      by simp_all
    note exact = run_folders_no_client [OF client idc colc, of prepare p gpt]
    from exact run have r: "r = (if \<exists>fo \<in> set fos. needs_work (df s) fo
                      then Some (ValueError m) else None)"
      and s': "s' = s\<lparr>df := foldl with_row (df s)
                          (map id_video
                             (filter (\<lambda>fo. filenames fo \<noteq> []) (reached (df s) fos))),
                    out := out s @ map announcement
                             (filter (\<lambda>fo. filenames fo \<noteq> []) (reached (df s) fos)),
                    calls := calls s
                             + (if \<exists>fo \<in> set fos. needs_work (df s) fo then 1 else 0)\<rparr>"
      by simp_all
    have "fst (annotate prepare p env gpt fos s) = r"
    proof (cases r)
      case None
      from idc cols have "''id_video'' \<in> set (columns (df s'))"
        by simp
      then have "fst (finish p s') = None"
        by (rule finish_raises_nothing)
      with None run show ?thesis
        by (simp add: annotate_def)
    next
      case (Some e)
      with run show ?thesis
        by (simp add: annotate_def)
    qed
    with client r s' show "(\<exists>m. get_azure_openai_client env = Inl (ValueError m) \<and>
                 r = (if \<exists>fo \<in> set fos. needs_work (df s) fo
                      then Some (ValueError m) else None)) \<and>
            s' = s\<lparr>df := foldl with_row (df s)
                          (map id_video
                             (filter (\<lambda>fo. filenames fo \<noteq> []) (reached (df s) fos))),
                    out := out s @ map announcement
                             (filter (\<lambda>fo. filenames fo \<noteq> []) (reached (df s) fos)),
                    calls := calls s
                             + (if \<exists>fo \<in> set fos. needs_work (df s) fo then 1 else 0)\<rparr> \<and>
            fst (annotate prepare p env gpt fos s) = r"
      by blast
  qed
qed

text \<open>
  Claim C4 as stated fails. With no variable set and no table on disk, the folder
  \<open>v1/c1\<close> is announced and a row for \<open>v1\<close> is appended before the \<open>ValueError\<close> ends
  the run. And on a table whose only candidate cell is filled already, the run ends
  normally without any configuration error.
\<close>

theorem no_credentials_counterexample:
  "is_Ran (main (\<lambda>fs. False) sample ''p.csv'' Map.empty (\<lambda>n c x. Inr ''Open hand.'') Map.empty
            [\<lparr>id_video = ''v1'', id_description = ''c1'', filenames = [''a.jpg'']\<rparr>]) \<and>
   raised (main (\<lambda>fs. False) sample ''p.csv'' Map.empty (\<lambda>n c x. Inr ''Open hand.'') Map.empty
            [\<lparr>id_video = ''v1'', id_description = ''c1'', filenames = [''a.jpg'']\<rparr>])
     = Some (ValueError
         ''API key for Microsoft Azure OpenAI not found in environment variables.'') \<and>
   out (final (main (\<lambda>fs. False) sample ''p.csv'' Map.empty (\<lambda>n c x. Inr ''Open hand.'')
            Map.empty
            [\<lparr>id_video = ''v1'', id_description = ''c1'', filenames = [''a.jpg'']\<rparr>]))
     = [''Processing v1 / description c1...''] \<and>
   ids (df (final (main (\<lambda>fs. False) sample ''p.csv'' Map.empty (\<lambda>n c x. Inr ''Open hand.'')
            Map.empty
            [\<lparr>id_video = ''v1'', id_description = ''c1'', filenames = [''a.jpg'']\<rparr>])))
     = [Some ''v1''] \<and>
   fst (annotate sample ''p.csv'' Map.empty (\<lambda>n c x. Inr ''Open hand.'')
          [\<lparr>id_video = ''v1'', id_description = ''c1'', filenames = [''a.jpg'']\<rparr>]
          (fresh \<lparr>columns = [''id_video'', ''c1_description''],
                  rows = [[''id_video'' \<mapsto> ''v1'',
                           ''c1_description'' \<mapsto> ''Closed fist moves up.'']]\<rparr>)) = None"
  by code_simp

text \<open>
  No variable set, a first folder whose cell is filled, a second whose cell is not and
  a third that the run never reaches; and the first folder alone.
\<close>

theorem no_credentials_run_witness:
  "Map.empty ''AZURE_OPENAI_API_KEY'' = (None :: string option) \<and>
   fst (run_folders sample ''p.csv'' Map.empty (\<lambda>n c x. Inr ''Open hand.'')
          [\<lparr>id_video = ''v1'', id_description = ''c1'', filenames = [''a.jpg'']\<rparr>,
           \<lparr>id_video = ''v2'', id_description = ''c1'', filenames = [''b.jpg'']\<rparr>,
           \<lparr>id_video = ''v3'', id_description = ''c1'', filenames = [''c.jpg'']\<rparr>]
          (fresh \<lparr>columns = [''id_video'', ''c1_description''],
                  rows = [[''id_video'' \<mapsto> ''v1'',
                           ''c1_description'' \<mapsto> ''Closed fist moves up.'']]\<rparr>))
     = Some (ValueError
         ''API key for Microsoft Azure OpenAI not found in environment variables.'') \<and>
   out (snd (run_folders sample ''p.csv'' Map.empty (\<lambda>n c x. Inr ''Open hand.'')
          [\<lparr>id_video = ''v1'', id_description = ''c1'', filenames = [''a.jpg'']\<rparr>,
           \<lparr>id_video = ''v2'', id_description = ''c1'', filenames = [''b.jpg'']\<rparr>,
           \<lparr>id_video = ''v3'', id_description = ''c1'', filenames = [''c.jpg'']\<rparr>]
          (fresh \<lparr>columns = [''id_video'', ''c1_description''],
                  rows = [[''id_video'' \<mapsto> ''v1'',
                           ''c1_description'' \<mapsto> ''Closed fist moves up.'']]\<rparr>)))
     = [''Processing v1 / description c1...'', ''Processing v2 / description c1...''] \<and>
   ids (df (snd (run_folders sample ''p.csv'' Map.empty (\<lambda>n c x. Inr ''Open hand.'')
          [\<lparr>id_video = ''v1'', id_description = ''c1'', filenames = [''a.jpg'']\<rparr>,
           \<lparr>id_video = ''v2'', id_description = ''c1'', filenames = [''b.jpg'']\<rparr>,
           \<lparr>id_video = ''v3'', id_description = ''c1'', filenames = [''c.jpg'']\<rparr>]
          (fresh \<lparr>columns = [''id_video'', ''c1_description''],
                  rows = [[''id_video'' \<mapsto> ''v1'',
                           ''c1_description'' \<mapsto> ''Closed fist moves up.'']]\<rparr>))))
     = [Some ''v1'', Some ''v2''] \<and>
   calls (snd (run_folders sample ''p.csv'' Map.empty (\<lambda>n c x. Inr ''Open hand.'')
          [\<lparr>id_video = ''v1'', id_description = ''c1'', filenames = [''a.jpg'']\<rparr>,
           \<lparr>id_video = ''v2'', id_description = ''c1'', filenames = [''b.jpg'']\<rparr>,
           \<lparr>id_video = ''v3'', id_description = ''c1'', filenames = [''c.jpg'']\<rparr>]
          (fresh \<lparr>columns = [''id_video'', ''c1_description''],
                  rows = [[''id_video'' \<mapsto> ''v1'',
                           ''c1_description'' \<mapsto> ''Closed fist moves up.'']]\<rparr>))) = 1 \<and>
   fs (snd (run_folders sample ''p.csv'' Map.empty (\<lambda>n c x. Inr ''Open hand.'')
          [\<lparr>id_video = ''v1'', id_description = ''c1'', filenames = [''a.jpg'']\<rparr>,
           \<lparr>id_video = ''v2'', id_description = ''c1'', filenames = [''b.jpg'']\<rparr>,
           \<lparr>id_video = ''v3'', id_description = ''c1'', filenames = [''c.jpg'']\<rparr>]
          (fresh \<lparr>columns = [''id_video'', ''c1_description''],
                  rows = [[''id_video'' \<mapsto> ''v1'',
                           ''c1_description'' \<mapsto> ''Closed fist moves up.'']]\<rparr>))) = Map.empty \<and>
   fst (annotate sample ''p.csv'' Map.empty (\<lambda>n c x. Inr ''Open hand.'')
          [\<lparr>id_video = ''v1'', id_description = ''c1'', filenames = [''a.jpg'']\<rparr>,
           \<lparr>id_video = ''v2'', id_description = ''c1'', filenames = [''b.jpg'']\<rparr>,
           \<lparr>id_video = ''v3'', id_description = ''c1'', filenames = [''c.jpg'']\<rparr>]
          (fresh \<lparr>columns = [''id_video'', ''c1_description''],
                  rows = [[''id_video'' \<mapsto> ''v1'',
                           ''c1_description'' \<mapsto> ''Closed fist moves up.'']]\<rparr>))
     = Some (ValueError
         ''API key for Microsoft Azure OpenAI not found in environment variables.'') \<and>
   fst (run_folders sample ''p.csv'' Map.empty (\<lambda>n c x. Inr ''Open hand.'')
          [\<lparr>id_video = ''v1'', id_description = ''c1'', filenames = [''a.jpg'']\<rparr>]
          (fresh \<lparr>columns = [''id_video'', ''c1_description''],
                  rows = [[''id_video'' \<mapsto> ''v1'',
                           ''c1_description'' \<mapsto> ''Closed fist moves up.'']]\<rparr>)) = None"
proof -
  let ?gpt = "\<lambda>(n :: nat) (c :: client) (x :: string list). (Inr ''Open hand.'' :: exn + string)"
  let ?s = "fresh \<lparr>columns = [''id_video'', ''c1_description''],
                   rows = [[''id_video'' \<mapsto> ''v1'',
                            ''c1_description'' \<mapsto> ''Closed fist moves up.'']]\<rparr>"
  let ?fos = "[\<lparr>id_video = ''v1'', id_description = ''c1'', filenames = [''a.jpg'']\<rparr>,
           \<lparr>id_video = ''v2'', id_description = ''c1'', filenames = [''b.jpg'']\<rparr>,
           \<lparr>id_video = ''v3'', id_description = ''c1'', filenames = [''c.jpg'']\<rparr>]"
  let ?one = "[\<lparr>id_video = ''v1'', id_description = ''c1'', filenames = [''a.jpg'']\<rparr>]"
  let ?run = "run_folders sample ''p.csv'' Map.empty ?gpt ?fos ?s"
  let ?short = "run_folders sample ''p.csv'' Map.empty ?gpt ?one ?s"
  let ?message = "''API key for Microsoft Azure OpenAI not found in environment variables.''"
  have nc: "Map.empty ''AZURE_OPENAI_API_KEY'' = (None :: string option)
            \<or> Map.empty ''AZURE_OPENAI_ENDPOINT'' = (None :: string option)"
    by simp
  have client: "get_azure_openai_client Map.empty = Inl (ValueError ?message)"
    by (simp add: get_azure_openai_client_def)
  have "?run = (fst ?run, snd ?run)"
    by (rule prod.collapse [symmetric])
  note long = no_credentials_run [OF nc this]
  have "''id_video'' \<in> set (columns (df ?s)) \<and>
        (\<forall>fo \<in> set ?fos. id_description fo @ ''_description'' \<in> set (columns (df ?s)))"
    by (simp add: fresh_def)
  note exact = long [THEN conjunct2, THEN conjunct2, THEN conjunct2, THEN conjunct2,
                     THEN mp, OF this]
  have work: "\<exists>fo \<in> set ?fos. needs_work (df ?s) fo"
    by (simp add: needs_work_def filled_def fresh_def)
  from exact obtain m where "get_azure_openai_client Map.empty = Inl (ValueError m)"
    and "fst ?run = (if \<exists>fo \<in> set ?fos. needs_work (df ?s) fo
                     then Some (ValueError m) else None)"
    by blast
  with client work have raised: "fst ?run = Some (ValueError ?message)"
    by (simp only: if_True sum.inject exn.inject)
  from exact have after: "snd ?run
      = ?s\<lparr>df := foldl with_row (df ?s)
                    (map id_video
                       (filter (\<lambda>fo. filenames fo \<noteq> []) (reached (df ?s) ?fos))),
              out := out ?s @ map announcement
                       (filter (\<lambda>fo. filenames fo \<noteq> []) (reached (df ?s) ?fos)),
              calls := calls ?s
                       + (if \<exists>fo \<in> set ?fos. needs_work (df ?s) fo then 1 else 0)\<rparr>"
    by (rule conjunct2 [THEN conjunct1])
  have printed: "out (snd ?run)
      = [''Processing v1 / description c1...'', ''Processing v2 / description c1...'']"
    unfolding after by code_simp
  have keys: "ids (df (snd ?run)) = [Some ''v1'', Some ''v2'']"
    unfolding after by code_simp
  have once: "calls (snd ?run) = 1"
    unfolding after by code_simp
  from long have "fs (snd ?run) = fs ?s"
    by (rule conjunct1)
  then have files: "fs (snd ?run) = Map.empty"
    by (simp add: fresh_def)
  from exact have "fst (annotate sample ''p.csv'' Map.empty ?gpt ?fos ?s) = fst ?run"
    by (rule conjunct2 [THEN conjunct2])
  with raised have whole: "fst (annotate sample ''p.csv'' Map.empty ?gpt ?fos ?s)
      = Some (ValueError ?message)"
    by (simp only:)
  have "?short = (fst ?short, snd ?short)"
    by (rule prod.collapse [symmetric])
  note short = no_credentials_run [OF nc this]
  have "''id_video'' \<in> set (columns (df ?s)) \<and>
        (\<forall>fo \<in> set ?one. id_description fo @ ''_description'' \<in> set (columns (df ?s)))"
    by (simp add: fresh_def)
  note exact1 = short [THEN conjunct2, THEN conjunct2, THEN conjunct2, THEN conjunct2,
                      THEN mp, OF this]
  have rest: "\<not> (\<exists>fo \<in> set ?one. needs_work (df ?s) fo)"
    by (simp add: needs_work_def filled_def fresh_def)
  from exact1 obtain m1 where
    "fst ?short = (if \<exists>fo \<in> set ?one. needs_work (df ?s) fo
                   then Some (ValueError m1) else None)"
    by blast
  with rest have quiet: "fst ?short = None"
    by (simp only: if_False)
  have "Map.empty ''AZURE_OPENAI_API_KEY'' = (None :: string option)"
    by simp
  with raised printed keys once files whole quiet show ?thesis
    by (intro conjI)
qed

section \<open>Runs against a source that answers or rejects\<close>

lemma filled_update:
  assumes col: "col \<noteq> ''id_video''"
  shows "filled (d\<lparr>rows := map (\<lambda>r. if r ''id_video'' = Some key then r(col \<mapsto> v) else r)
                              (rows d)\<rparr>) key' c'
         \<longleftrightarrow> filled d key' c' \<or> (key' = key \<and> c' = col \<and> Some key \<in> set (ids d))"
    (is "?after \<longleftrightarrow> ?before \<or> ?written")
proof -
  define upd where "upd = (\<lambda>r :: row. if r ''id_video'' = Some key then r(col \<mapsto> v) else r)"
  have id: "upd r ''id_video'' = r ''id_video''" for r
    using col by (simp add: upd_def)
  have cell: "upd r c' \<noteq> None \<longleftrightarrow> r c' \<noteq> None \<or> (r ''id_video'' = Some key \<and> c' = col)" for r
    by (simp add: upd_def)
  have "?after \<longleftrightarrow> (\<exists>r \<in> set (rows d). upd r ''id_video'' = Some key' \<and> upd r c' \<noteq> None)"
    by (simp add: filled_def flip: upd_def)
  then have after: "?after \<longleftrightarrow>
      (\<exists>r \<in> set (rows d). r ''id_video'' = Some key' \<and>
          (r c' \<noteq> None \<or> (r ''id_video'' = Some key \<and> c' = col)))"
    by (simp only: id cell)
  show ?thesis
    unfolding after by (auto simp: filled_def ids_def image_iff) metis+
qed

lemma filled_keeps:
  assumes "filled d key col" and "keeps_filled (rows d) (rows d')"
  shows "filled d' key col"
proof -
  from assms(1) obtain r v where r: "r \<in> set (rows d)" "r ''id_video'' = Some key" "r col = Some v"
    by (auto simp: filled_def)
  then obtain i where i: "i < length (rows d)" "rows d ! i = r"
    by (auto simp: in_set_conv_nth)
  with assms(2) r have "i < length (rows d')" "(rows d' ! i) ''id_video'' = Some key"
    "(rows d' ! i) col = Some v"
    by (auto simp: keeps_filled_def)
  then show ?thesis
    unfolding filled_def by (intro bexI [of _ "rows d' ! i"]) simp_all
qed

lemma filled_same_rows: "set (rows d) = set (rows d') \<Longrightarrow> filled d key col = filled d' key col"
  by (simp add: filled_def)

lemma describe_with_credentials:
  "get_azure_openai_client env = Inr c \<Longrightarrow> describe_hand_gesture env gpt n x = gpt n c x"
  by (simp add: describe_hand_gesture_def)

lemma ensured_has_key:
  "Some key \<in> set (ids (if Some key \<in> set (ids d) then d
                          else d\<lparr>rows := rows d @ [blank_row key]\<rparr>))"
  by (simp add: ids_def blank_row_def)

lemma served_step:
  assumes creds: "get_azure_openai_client env = Inr c"
    and idc: "''id_video'' \<in> set (columns (df s))"
    and colc: "id_description fo @ ''_description'' \<in> set (columns (df s))"
    and source: "\<forall>n x. (\<exists>v. gpt n c x = Inr v) \<or> (\<exists>m. gpt n c x = Inl (RuntimeError m))"
    and step: "process_folder prepare p env gpt fo s = (r1, s1)"
  shows "r1 = None \<and> columns (df s1) = columns (df s) \<and>
         (filenames fo \<noteq> [] \<longrightarrow> (\<exists>v. gpt (calls s) c (prepare (filenames fo)) = Inr v) \<longrightarrow>
            filled (df s1) (id_video fo) (id_description fo @ ''_description'')) \<and>
         (\<forall>key idd. filled (df s1) key (idd @ ''_description'') \<longrightarrow>
            filled (df s) key (idd @ ''_description'') \<or>
            (id_video fo = key \<and> id_description fo = idd \<and> filenames fo \<noteq> [] \<and>
             (\<exists>v. gpt (calls s) c (prepare (filenames fo)) = Inr v)))"
proof (cases "filenames fo = []")
  case True
  with step show ?thesis
    by (simp add: process_folder_no_files)
next
  case files: False
  let ?key = "id_video fo"
  let ?col = "id_description fo @ ''_description''"
  define d1 where "d1 = (if Some ?key \<in> set (ids (df s)) then df s
                         else (df s)\<lparr>rows := rows (df s) @ [blank_row ?key]\<rparr>)"
  define t1 where "t1 = s\<lparr>df := d1,
                       out := out s @ [''Processing '' @ id_video fo @ '' / description ''
                                        @ id_description fo @ ''...'']\<rparr>"
  note eq = process_folder_ready [OF files idc d1_def t1_def refl, of prepare p env gpt,
      unfolded describe_with_credentials [OF creds]]
  have d1: "columns d1 = columns (df s)" "Some ?key \<in> set (ids d1)"
    using ensured_has_key [of ?key "df s"] by (simp_all add: d1_def)
  have before: "filled d1 key (idd @ ''_description'') = filled (df s) key (idd @ ''_description'')"
    for key idd
    by (simp add: d1_def filled_append_one [OF col_not_id])
  show ?thesis
  proof (cases "filled d1 ?key ?col")
    case True
    with step eq colc have "r1 = None" and "s1 = t1"
      by simp_all
    with True d1 before show ?thesis
      by (simp add: t1_def)
  next
    case absent: False
    from source consider v where "gpt (calls s) c (prepare (filenames fo)) = Inr v"
      | m where "gpt (calls s) c (prepare (filenames fo)) = Inl (RuntimeError m)"
      by blast
    then show ?thesis
    proof cases
      case 1
      let ?d2 = "d1\<lparr>rows := map (\<lambda>r. if r ''id_video'' = Some ?key then r(?col \<mapsto> v) else r)
                                (rows d1)\<rparr>"
      from step eq colc absent 1 have "r1 = None" and "df s1 = ?d2"
        by (auto simp: t1_def)
      moreover have "filled ?d2 key (idd @ ''_description'')
          \<longleftrightarrow> filled (df s) key (idd @ ''_description'') \<or> (key = ?key \<and> idd = id_description fo)"
        for key idd
        using d1(2) by (simp add: filled_update [OF col_not_id] before)
      ultimately show ?thesis
        using 1 d1(1) files by auto
    next
      case 2
      with step eq colc absent have "r1 = None" and "df s1 = d1"
        by (auto simp: t1_def)
      with d1 before absent 2 show ?thesis
        by auto
    qed
  qed
qed

lemma served_run:
  assumes creds: "get_azure_openai_client env = Inr c"
    and source: "\<forall>n x. (\<exists>v. gpt n c x = Inr v) \<or> (\<exists>m. gpt n c x = Inl (RuntimeError m))"
  shows "''id_video'' \<in> set (columns (df s)) \<Longrightarrow>
         \<forall>fo \<in> set fos. id_description fo @ ''_description'' \<in> set (columns (df s)) \<Longrightarrow>
         run_folders prepare p env gpt fos s = (r, s') \<Longrightarrow>
         r = None \<and> columns (df s') = columns (df s) \<and>
         (\<forall>fo \<in> set fos. filenames fo \<noteq> [] \<longrightarrow>
            (\<forall>n. \<exists>v. gpt n c (prepare (filenames fo)) = Inr v) \<longrightarrow>
            filled (df s') (id_video fo) (id_description fo @ ''_description'')) \<and>
         (\<forall>key idd. filled (df s') key (idd @ ''_description'') \<longrightarrow>
            filled (df s) key (idd @ ''_description'') \<or>
            (\<exists>fo \<in> set fos. id_video fo = key \<and> id_description fo = idd \<and>
               filenames fo \<noteq> [] \<and> (\<exists>n v. gpt n c (prepare (filenames fo)) = Inr v)))"
proof (induction fos arbitrary: s)
  case Nil
  then show ?case
    by simp
next
  case (Cons fo fos)
  obtain r1 s1 where step: "process_folder prepare p env gpt fo s = (r1, s1)"
    by (cases "process_folder prepare p env gpt fo s")
  from Cons.prems(2) have colc: "id_description fo @ ''_description'' \<in> set (columns (df s))"
    by simp
  note one = served_step [OF creds Cons.prems(1) colc source step]
  then have r1: "r1 = None" and cols: "columns (df s1) = columns (df s)"
    by simp_all
  with Cons.prems(3) step have rest: "run_folders prepare p env gpt fos s1 = (r, s')"
    by simp
  have "''id_video'' \<in> set (columns (df s1))"
    and "\<forall>fo \<in> set fos. id_description fo @ ''_description'' \<in> set (columns (df s1))"
    using Cons.prems(1,2) cols by simp_all
  note ih = Cons.IH [OF this rest]
  have head: "filled (df s') (id_video fo) (id_description fo @ ''_description'')"
    if "filenames fo \<noteq> []" and "\<forall>n. \<exists>v. gpt n c (prepare (filenames fo)) = Inr v"
  proof -
    from one that have "filled (df s1) (id_video fo) (id_description fo @ ''_description'')"
      by blast
    then show ?thesis
      using keeps_run_folders [OF rest] by (rule filled_keeps)
  qed
  have origin: "filled (df s) key (idd @ ''_description'') \<or>
      (\<exists>fo' \<in> set (fo # fos). id_video fo' = key \<and> id_description fo' = idd \<and>
         filenames fo' \<noteq> [] \<and> (\<exists>n v. gpt n c (prepare (filenames fo')) = Inr v))"
    if "filled (df s') key (idd @ ''_description'')" for key idd
  proof -
    from ih that consider "filled (df s1) key (idd @ ''_description'')"
      | "\<exists>fo' \<in> set fos. id_video fo' = key \<and> id_description fo' = idd \<and>
           filenames fo' \<noteq> [] \<and> (\<exists>n v. gpt n c (prepare (filenames fo')) = Inr v)"
      by blast
    then show ?thesis
    proof cases
      case 1
      with one show ?thesis
        by (simp del: filled_def) blast
    next
      case 2
      then show ?thesis
        by auto
    qed
  qed
  from ih cols head origin show ?case
    by (simp del: filled_def)
qed

lemma rejected_step:
  assumes creds: "get_azure_openai_client env = Inr c"
    and files: "filenames fo \<noteq> []"
    and idc: "''id_video'' \<in> set (columns (df t))"
    and colc: "id_description fo @ ''_description'' \<in> set (columns (df t))"
    and absent: "\<not> filled (df t) (id_video fo) (id_description fo @ ''_description'')"
    and reject: "gpt (calls t) c (prepare (filenames fo)) = Inl (RuntimeError m)"
  shows "fst (process_folder prepare p env gpt fo t) = None"
    and "fs (snd (process_folder prepare p env gpt fo t)) = fs t"
    and "calls (snd (process_folder prepare p env gpt fo t)) = Suc (calls t)"
    and "ensure_row (df t) (Some (id_video fo))
           = Inr (df (snd (process_folder prepare p env gpt fo t)))"
    and "\<not> filled (df (snd (process_folder prepare p env gpt fo t))) (id_video fo)
             (id_description fo @ ''_description'')"
proof -
  let ?key = "id_video fo"
  let ?col = "id_description fo @ ''_description''"
  define d1 where "d1 = (if Some ?key \<in> set (ids (df t)) then df t
                         else (df t)\<lparr>rows := rows (df t) @ [blank_row ?key]\<rparr>)"
  define t1 where "t1 = t\<lparr>df := d1,
                       out := out t @ [''Processing '' @ id_video fo @ '' / description ''
                                        @ id_description fo @ ''...'']\<rparr>"
  have before: "filled d1 ?key ?col = filled (df t) ?key ?col"
    by (simp add: d1_def filled_append_one [OF col_not_id])
  have "process_folder prepare p env gpt fo t =
      (None, t1\<lparr>calls := Suc (calls t), out := out t1 @ [''Exception Error: '' @ m @ ''.'']\<rparr>)"
    using process_folder_ready [OF files idc d1_def t1_def refl, of prepare p env gpt,
        unfolded describe_with_credentials [OF creds]] colc absent reject before
    by simp
  moreover have "ensure_row (df t) (Some ?key) = Inr d1"
    using idc by (simp add: ensure_row_Some d1_def)
  ultimately show "fst (process_folder prepare p env gpt fo t) = None"
    and "fs (snd (process_folder prepare p env gpt fo t)) = fs t"
    and "calls (snd (process_folder prepare p env gpt fo t)) = Suc (calls t)"
    and "ensure_row (df t) (Some (id_video fo))
           = Inr (df (snd (process_folder prepare p env gpt fo t)))"
    and "\<not> filled (df (snd (process_folder prepare p env gpt fo t))) (id_video fo)
             (id_description fo @ ''_description'')"
    using absent before by (simp_all add: t1_def)
qed

lemma finish_with_id:
  assumes "''id_video'' \<in> set (columns (df s1))" and "finish p s1 = (r, s')"
  shows "r = None" and "set (rows (df s')) = set (rows (df s1))"
proof -
  from assms(1) obtain d where d: "sort_by_key (df s1) = Inr d"
    by (auto simp: sort_by_key_def getitem_def)
  with assms(2) show "r = None"
    by (simp add: finish_def)
  from d assms(2) have "df s' = d"
    by (auto simp: finish_def)
  with mset_sort_by_key [OF d] show "set (rows (df s')) = set (rows (df s1))"
    by (auto dest: mset_eq_setD)
qed

text \<open>
  Claim C6, amended. Take a run with the credentials set, on a table that has the
  identifier column and the column of every folder, against a source that either
  answers or raises \<open>RuntimeError\<close>. The run ends normally. Every folder with files that
  the source answers has its cell filled at the end. A cell is filled at the end only if
  it was filled at the start or the source answered a folder of that cell, so the cell of
  a rejected folder stays absent. And the body of the loop, on a folder whose cell is
  absent and that the source rejects, raises nothing, writes no cell and does not write
  the file: all it does to the table is what \<open>ensure_row\<close> does, which appends a blank
  row when the identifier is new.
\<close>

theorem rejected_units_skipped:
  assumes creds: "get_azure_openai_client env = Inr c"
    and idc: "''id_video'' \<in> set (columns (df s))"
    and cols: "\<forall>fo \<in> set fos. id_description fo @ ''_description'' \<in> set (columns (df s))"
    and source: "\<forall>n x. (\<exists>v. gpt n c x = Inr v) \<or> (\<exists>m. gpt n c x = Inl (RuntimeError m))"
    and run: "annotate prepare p env gpt fos s = (r, s')"
  shows "r = None \<and>
     (\<forall>fo \<in> set fos. filenames fo \<noteq> [] \<longrightarrow>
        (\<forall>n. \<exists>v. gpt n c (prepare (filenames fo)) = Inr v) \<longrightarrow>
        filled (df s') (id_video fo) (id_description fo @ ''_description'')) \<and>
     (\<forall>key idd. filled (df s') key (idd @ ''_description'') \<longrightarrow>
        filled (df s) key (idd @ ''_description'') \<or>
        (\<exists>fo \<in> set fos. id_video fo = key \<and> id_description fo = idd \<and>
           filenames fo \<noteq> [] \<and> (\<exists>n v. gpt n c (prepare (filenames fo)) = Inr v))) \<and>
     (\<forall>t fo m.
        filenames fo \<noteq> [] \<and> ''id_video'' \<in> set (columns (df t)) \<and>
        id_description fo @ ''_description'' \<in> set (columns (df t)) \<and>
        \<not> filled (df t) (id_video fo) (id_description fo @ ''_description'') \<and>
        gpt (calls t) c (prepare (filenames fo)) = Inl (RuntimeError m) \<longrightarrow>
          fst (process_folder prepare p env gpt fo t) = None \<and>
          fs (snd (process_folder prepare p env gpt fo t)) = fs t \<and>
          ensure_row (df t) (Some (id_video fo))
            = Inr (df (snd (process_folder prepare p env gpt fo t))) \<and>
          \<not> filled (df (snd (process_folder prepare p env gpt fo t))) (id_video fo)
               (id_description fo @ ''_description''))"
proof -
  obtain r1 s1 where loop: "run_folders prepare p env gpt fos s = (r1, s1)"
    by (cases "run_folders prepare p env gpt fos s")
  note served = served_run [OF creds source idc cols loop]
  then have "r1 = None" and "''id_video'' \<in> set (columns (df s1))"
    using idc by simp_all
  with run loop have fin: "finish p s1 = (r, s')"
    by (simp add: annotate_def)
  note final = finish_with_id [OF \<open>''id_video'' \<in> set (columns (df s1))\<close> fin]
  have same: "filled (df s') key col = filled (df s1) key col" for key col
    by (rule filled_same_rows) (rule final(2))
  have step: "fst (process_folder prepare p env gpt fo t) = None \<and>
          fs (snd (process_folder prepare p env gpt fo t)) = fs t \<and>
          ensure_row (df t) (Some (id_video fo))
            = Inr (df (snd (process_folder prepare p env gpt fo t))) \<and>
          \<not> filled (df (snd (process_folder prepare p env gpt fo t))) (id_video fo)
               (id_description fo @ ''_description'')"
    if "filenames fo \<noteq> [] \<and> ''id_video'' \<in> set (columns (df t)) \<and>
        id_description fo @ ''_description'' \<in> set (columns (df t)) \<and>
        \<not> filled (df t) (id_video fo) (id_description fo @ ''_description'') \<and>
        gpt (calls t) c (prepare (filenames fo)) = Inl (RuntimeError m)" for t fo m
    using rejected_step [OF creds, of fo t gpt prepare m p] that by blast
  from served final(1) step show ?thesis
    unfolding same by blast
qed

text \<open>
  Claim C6 as stated fails where it says the table is not mutated: on the empty table,
  the rejected folder of a new identifier leaves one more row in the table.
\<close>

theorem rejected_unit_counterexample:
  "fst (process_folder sample ''p.csv'' example_env (\<lambda>n c x. Inl (RuntimeError ''blocked''))
          \<lparr>id_video = ''v1'', id_description = ''c1'', filenames = [''a.jpg'']\<rparr>
          (fresh (DataFrame (schema_columns ''description'')))) = None \<and>
   ids (df (fresh (DataFrame (schema_columns ''description'')))) = [] \<and>
   ids (df (snd (process_folder sample ''p.csv'' example_env
          (\<lambda>n c x. Inl (RuntimeError ''blocked''))
          \<lparr>id_video = ''v1'', id_description = ''c1'', filenames = [''a.jpg'']\<rparr>
          (fresh (DataFrame (schema_columns ''description'')))))) = [Some ''v1'']"
  by code_simp

text \<open>
  Three folders on the empty table of the schema; the source rejects the second.
\<close>

theorem rejected_units_skipped_witness:
  "fst (annotate sample ''p.csv'' example_env
          (\<lambda>n c x. if x = [''b.jpg''] then Inl (RuntimeError ''blocked'')
                    else Inr ''Closed fist moves up.'')
          [\<lparr>id_video = ''v1'', id_description = ''c1'', filenames = [''a.jpg'']\<rparr>,
           \<lparr>id_video = ''v1'', id_description = ''c2'', filenames = [''b.jpg'']\<rparr>,
           \<lparr>id_video = ''v2'', id_description = ''c1'', filenames = [''c.jpg'']\<rparr>]
          (fresh (DataFrame (schema_columns ''description'')))) = None \<and>
   filled (df (snd (annotate sample ''p.csv'' example_env
          (\<lambda>n c x. if x = [''b.jpg''] then Inl (RuntimeError ''blocked'')
                    else Inr ''Closed fist moves up.'')
          [\<lparr>id_video = ''v1'', id_description = ''c1'', filenames = [''a.jpg'']\<rparr>,
           \<lparr>id_video = ''v1'', id_description = ''c2'', filenames = [''b.jpg'']\<rparr>,
           \<lparr>id_video = ''v2'', id_description = ''c1'', filenames = [''c.jpg'']\<rparr>]
          (fresh (DataFrame (schema_columns ''description'')))))) ''v1'' ''c1_description'' \<and>
   filled (df (snd (annotate sample ''p.csv'' example_env
          (\<lambda>n c x. if x = [''b.jpg''] then Inl (RuntimeError ''blocked'')
                    else Inr ''Closed fist moves up.'')
          [\<lparr>id_video = ''v1'', id_description = ''c1'', filenames = [''a.jpg'']\<rparr>,
           \<lparr>id_video = ''v1'', id_description = ''c2'', filenames = [''b.jpg'']\<rparr>,
           \<lparr>id_video = ''v2'', id_description = ''c1'', filenames = [''c.jpg'']\<rparr>]
          (fresh (DataFrame (schema_columns ''description'')))))) ''v2'' ''c1_description'' \<and>
   \<not> filled (df (snd (annotate sample ''p.csv'' example_env
          (\<lambda>n c x. if x = [''b.jpg''] then Inl (RuntimeError ''blocked'')
                    else Inr ''Closed fist moves up.'')
          [\<lparr>id_video = ''v1'', id_description = ''c1'', filenames = [''a.jpg'']\<rparr>,
           \<lparr>id_video = ''v1'', id_description = ''c2'', filenames = [''b.jpg'']\<rparr>,
           \<lparr>id_video = ''v2'', id_description = ''c1'', filenames = [''c.jpg'']\<rparr>]
          (fresh (DataFrame (schema_columns ''description'')))))) ''v1'' ''c2_description''"
proof -
  define gpt :: "string list service" where
    "gpt = (\<lambda>n c x. if x = [''b.jpg''] then Inl (RuntimeError ''blocked'')
                    else Inr ''Closed fist moves up.'')"
  define fo1 where "fo1 = \<lparr>id_video = ''v1'', id_description = ''c1'', filenames = [''a.jpg'']\<rparr>"
  define fo2 where "fo2 = \<lparr>id_video = ''v1'', id_description = ''c2'', filenames = [''b.jpg'']\<rparr>"
  define fo3 where "fo3 = \<lparr>id_video = ''v2'', id_description = ''c1'', filenames = [''c.jpg'']\<rparr>"
  define s where "s = fresh (DataFrame (schema_columns ''description''))"
  define c where "c = \<lparr>api_key = ''secret'', api_version = ''2024-02-01'',
                        azure_endpoint = ''https://host''\<rparr>"
  define run where "run = annotate sample ''p.csv'' example_env gpt [fo1, fo2, fo3] s"
  have creds: "get_azure_openai_client example_env = Inr c"
    by (simp add: get_azure_openai_client_def example_env_def c_def)
  have idc: "''id_video'' \<in> set (columns (df s))"
    by (simp add: s_def fresh_def DataFrame_def schema_columns_eq)
  have cols: "\<forall>fo \<in> set [fo1, fo2, fo3].
      id_description fo @ ''_description'' \<in> set (columns (df s))"
    by (simp add: s_def fresh_def DataFrame_def schema_columns_eq fo1_def fo2_def fo3_def)
  have source: "\<forall>n x. (\<exists>v. gpt n c x = Inr v) \<or> (\<exists>m. gpt n c x = Inl (RuntimeError m))"
    by (simp add: gpt_def)
  have collapse: "annotate sample ''p.csv'' example_env gpt [fo1, fo2, fo3] s = (fst run, snd run)"
    by (simp add: run_def)
  note all = rejected_units_skipped [OF creds idc cols source collapse]
  have empty: "\<not> filled (df s) key col" for key col
    by (simp add: filled_def s_def fresh_def DataFrame_def)
  have ok: "fst run = None"
    using all by (rule conjunct1)
  have a1: "\<forall>n. \<exists>v. gpt n c (sample (filenames fo1)) = Inr v"
    and a3: "\<forall>n. \<exists>v. gpt n c (sample (filenames fo3)) = Inr v"
    by (simp_all add: gpt_def fo1_def fo3_def sample_def)
  from all have accepted: "\<forall>fo \<in> set [fo1, fo2, fo3]. filenames fo \<noteq> [] \<longrightarrow>
        (\<forall>n. \<exists>v. gpt n c (sample (filenames fo)) = Inr v) \<longrightarrow>
        filled (df (snd run)) (id_video fo) (id_description fo @ ''_description'')"
    by (rule conjunct1 [OF conjunct2])
  have f1: "filled (df (snd run)) ''v1'' ''c1_description''"
    using accepted [rule_format, of fo1] a1 by (simp add: fo1_def)
  have f3: "filled (df (snd run)) ''v2'' ''c1_description''"
    using accepted [rule_format, of fo3] a3 by (simp add: fo3_def)
  from all have origin: "\<forall>key idd. filled (df (snd run)) key (idd @ ''_description'') \<longrightarrow>
        filled (df s) key (idd @ ''_description'') \<or>
        (\<exists>fo \<in> set [fo1, fo2, fo3]. id_video fo = key \<and> id_description fo = idd \<and>
           filenames fo \<noteq> [] \<and> (\<exists>n v. gpt n c (sample (filenames fo)) = Inr v))"
    by (rule conjunct1 [OF conjunct2 [OF conjunct2]])
  have "\<not> (\<exists>fo \<in> set [fo1, fo2, fo3]. id_video fo = ''v1'' \<and> id_description fo = ''c2'' \<and>
           filenames fo \<noteq> [] \<and> (\<exists>n v. gpt n c (sample (filenames fo)) = Inr v))"
    by (simp add: fo1_def fo2_def fo3_def gpt_def sample_def)
  with origin [rule_format, of "''v1''" "''c2''"] empty
  have f2: "\<not> filled (df (snd run)) ''v1'' ''c2_description''"
    by auto
  from ok f1 f3 f2 show ?thesis
    unfolding run_def gpt_def fo1_def fo2_def fo3_def s_def by (intro conjI)
qed

end
